theory Spec2Isabelle
  imports Main "HOL-Library.Word"
begin

unbundle bit_operations_syntax

section \<open>Machine integers, errors and the bit stream\<close>

text \<open>
  The codec is C. An \<open>int\<close> and an \<open>unsigned\<close> are both a \<open>32 word\<close>: \<open>+\<close>, \<open>-\<close> and
  \<open>*\<close> wrap, a signed comparison is \<open><s\<close> / \<open>\<le>s\<close>, an unsigned one is \<open><\<close> / \<open>\<le>\<close>,
  \<open>>>\<close> on an \<open>int\<close> is \<open>signed_drop_bit\<close> and on an \<open>unsigned\<close> is \<open>drop_bit\<close>, \<open><<\<close> is
  \<open>push_bit\<close>. An \<open>int64_t\<close> is a \<open>64 word\<close>; \<open>scast\<close> is the sign-extending conversion
  and \<open>ucast\<close> the truncating one. Array lengths, loop indices and bit counts are \<open>nat\<close>.

  What stops the C program short of returning is a value of \<open>error\<close>: the \<open>longjmp\<close> of
  the residual overflow, a failed \<open>assert\<close>, a read past an array, a division by zero,
  a loop that does not end, a read past the end of the stream, a shift of an \<open>int\<close> by
  a count of 32 or more where the residual coder or the predictor of the decoder
  takes the count from its caller, and the decoder's \<open>status_t\<close> codes other than
  \<open>OK\<close>.
\<close>

type_synonym bits = "bool list"

datatype error =
    ResidualOverflow
  | AssertionFailed
  | ArrayOutOfBounds
  | DivisionByZero
  | UndefinedShift
  | NoReturn
  | EndOfStream
  | INVALID_FRAME_CHANNEL_COUNT
  | EXCESSIVE_FRAME_CHANNEL_COUNT
  | FRAME_BLOCK_SIZE_MISMATCH
  | INVALID_BLOCK_SIZE
  | INVALID_PREDICTION_TYPE

text \<open>C's \<open>/\<close> on two \<open>int\<close>s truncates towards zero.\<close>

definition c_sdiv :: "32 word \<Rightarrow> 32 word \<Rightarrow> 32 word" where
  "c_sdiv a b = word_of_int (sgn (sint a) * sgn (sint b) * (\<bar>sint a\<bar> div \<bar>sint b\<bar>))"

subsection \<open>BitstreamWriter and BitstreamReader\<close>

text \<open>
  Modelled from the spec: \<open>bitstream.h\<close> (the \<open>BitstreamWriter\<close>, \<open>BitstreamRecorder\<close> and
  \<open>BitstreamReader\<close> objects) is not among the source files. The spec (4.A) has a
  big-endian, MSB-first stream: \<open>write\<close> of an N-bit unsigned, \<open>write_signed\<close> of an N-bit
  two's complement value, \<open>write_unary\<close> with a stop bit, \<open>byte_align\<close>, a recorder that
  buffers bits and reports \<open>bits_written\<close>; \<open>read\<close>, \<open>read_signed\<close>, \<open>skip\<close>,
  \<open>byte_align\<close>, and a short read that surfaces as one error.

  A function of the encoder that writes to a \<open>BitstreamWriter\<close> is modelled by the list
  of bits it appends; the content of a recorder is the list written since its \<open>reset\<close>,
  \<open>bits_written\<close> is its length and \<open>copy\<close> appends it to the target. A reader is the
  list of bits not yet read.
\<close>

definition bw_write :: "nat \<Rightarrow> 32 word \<Rightarrow> bits" where
  "bw_write n v = map (bit v) (rev [0..<n])"

definition bw_write_signed :: "nat \<Rightarrow> 32 word \<Rightarrow> bits" where
  "bw_write_signed n v = map (bit v) (rev [0..<n])"

text \<open>\<open>write_unary(bs, stop_bit, value)\<close>: \<open>value\<close> bits opposite to the stop bit, then the
  stop bit.\<close>

definition bw_write_unary :: "bool \<Rightarrow> 32 word \<Rightarrow> bits" where
  "bw_write_unary stop_bit v = replicate (unat v) (\<not> stop_bit) @ [stop_bit]"

text \<open>The writer's \<open>byte_align\<close> pads the stream written so far with 0 bits to a whole
  byte.\<close>

definition bw_byte_align :: "bits \<Rightarrow> bits" where
  "bw_byte_align bs = bs @ replicate ((8 - length bs mod 8) mod 8) False"

definition bits_value :: "bits \<Rightarrow> 32 word" where
  "bits_value bs = horner_sum of_bool 2 (rev bs)"

definition br_read :: "nat \<Rightarrow> bits \<Rightarrow> error + (32 word \<times> bits)" where
  "br_read n br =
     (if length br < n then Inl EndOfStream
      else Inr (bits_value (take n br), drop n br))"

definition br_read_signed :: "nat \<Rightarrow> bits \<Rightarrow> error + (32 word \<times> bits)" where
  "br_read_signed n br =
     (if length br < n then Inl EndOfStream
      else Inr (signed_take_bit (n - 1) (bits_value (take n br)), drop n br))"

definition br_skip :: "nat \<Rightarrow> bits \<Rightarrow> error + bits" where
  "br_skip n br = (if length br < n then Inl EndOfStream else Inr (drop n br))"

text \<open>The reader's \<open>byte_align\<close> drops the rest of the current byte. The stream is a
  sequence of whole bytes, so the bits left of the current byte are the remaining
  length modulo 8.\<close>

definition br_byte_align :: "bits \<Rightarrow> bits" where
  "br_byte_align br = drop (length br mod 8) br"

text \<open>
  Modelled from the spec: the table \<open>alac_residual.h\<close> that \<open>read_huffman_code\<close> walks in
  \<open>read_residual\<close> is not among the source files. The spec (4.E, 9) has a static
  prefix code that maps the unary runs of 0 to 8 one-bits, each closed by a zero bit,
  to the values 0 to 8, and a prefix of nine one-bits to the escape \<open>-1\<close>.
  \<open>read_huffman_MSB n\<close> has read \<open>n\<close> one-bits so far.
\<close>

fun read_huffman_MSB :: "nat \<Rightarrow> bits \<Rightarrow> error + (32 word \<times> bits)" where
  "read_huffman_MSB n [] = Inl EndOfStream"
| "read_huffman_MSB n (b # br) =
     (if b then (if n = 8 then Inr (- 1, br) else read_huffman_MSB (Suc n) br)
      else Inr (of_nat n, br))"

section \<open>The residual coder\<close>

subsection \<open>Encoder\<close>

text \<open>The options of \<open>struct alac_context\<close> that \<open>encode_alac\<close> fills in (\<open>alac.h\<close> is not
  among the source files; the fields are the ones the encoder reads).\<close>

record alac_options =
  opt_block_size :: nat
  opt_initial_history :: "32 word"
  opt_history_multiplier :: "32 word"
  opt_maximum_k :: "32 word"
  opt_minimum_interlacing_leftweight :: "32 word"
  opt_maximum_interlacing_leftweight :: "32 word"

text \<open>The encoder's \<open>LOG2(unsigned value)\<close>: the \<open>assert\<close>, then the counting loop and
  \<open>bits - 1\<close>.\<close>

function LOG2_count :: "32 word \<Rightarrow> 32 word \<Rightarrow> 32 word" where
  "LOG2_count v bits = (if v = 0 then bits else LOG2_count (drop_bit 1 v) (bits + 1))"
  by pat_completeness auto
termination
proof (relation "measure (\<lambda>(v, bits). unat v)")
  show "wf (measure (\<lambda>(v :: 32 word, bits :: 32 word). unat v))" by simp
next
  fix v bits :: "32 word"
  assume "v \<noteq> 0"
  then have "0 < unat v" by (simp add: unat_gt_0)
  then have "unat v div 2 < unat v" by simp
  then show "((drop_bit 1 v, bits + 1), (v, bits)) \<in> measure (\<lambda>(v, bits). unat v)"
    by (simp add: drop_bit_eq_div unat_div)
qed

definition LOG2 :: "32 word \<Rightarrow> error + 32 word" where
  "LOG2 v = (if 0 < v then Inr (LOG2_count v 0 - 1) else Inl AssertionFailed)"

text \<open>\<open>write_residual\<close> starts with \<open>value / ((1 << k) - 1)\<close>, \<open>k\<close> coming from the
  caller: from \<open>k = 32\<close> on the shift of the \<open>int\<close> 1 has no defined result, which is
  \<open>UndefinedShift\<close>; with \<open>k = 0\<close> the divisor is 0.\<close>

definition write_residual :: "32 word \<Rightarrow> 32 word \<Rightarrow> 32 word \<Rightarrow> error + bits" where
  "write_residual v k sample_size =
     (let d = push_bit (unat k) 1 - 1 in
      if 32 \<le> unat k then Inl UndefinedShift
      else if d = 0 then Inl DivisionByZero
      else
        let MSB = v div d; LSB = v mod d in
        if 8 < MSB then Inr (bw_write 9 0x1FF @ bw_write (unat sample_size) v)
        else Inr (bw_write_unary False MSB @
                  (if 1 < k then
                     (if 0 < LSB then bw_write (unat k) (LSB + 1)
                      else bw_write (unat (k - 1)) 0)
                   else [])))"

text \<open>The inner \<open>while ((i < residual_count) && (residuals[i] == 0))\<close> of the zero run:
  the result is \<open>(zeroes, i)\<close>.\<close>

function count_zeroes :: "nat \<Rightarrow> 32 word list \<Rightarrow> nat \<Rightarrow> nat \<Rightarrow> nat \<times> nat" where
  "count_zeroes residual_count residuals zeroes i =
     (if i < residual_count \<and> residuals ! i = 0
      then count_zeroes residual_count residuals (Suc zeroes) (Suc i)
      else (zeroes, i))"
  by pat_completeness auto
termination
  by (relation "measure (\<lambda>(residual_count, residuals, zeroes, i). residual_count - i)") auto

lemma count_zeroes_le: "i \<le> snd (count_zeroes residual_count residuals zeroes i)"
proof (induction residual_count residuals zeroes i rule: count_zeroes.induct)
  case (1 residual_count residuals zeroes i)
  show ?case
  proof (cases "i < residual_count \<and> residuals ! i = 0")
    case True
    with "1" have "Suc i \<le> snd (count_zeroes residual_count residuals (Suc zeroes) (Suc i))"
      by simp
    with True show ?thesis by (subst count_zeroes.simps) simp
  next
    case False
    then show ?thesis by (subst count_zeroes.simps) simp
  qed
qed

text \<open>\<open>encode_residuals\<close>: the state of the \<open>while (i < residual_count)\<close> loop is
  \<open>history\<close>, \<open>sign_modifier\<close> and \<open>i\<close>; \<open>out\<close> is what the loop has written to
  \<open>residual_block\<close> so far. \<open>encode_residuals_body\<close> is one pass through the body of the
  loop. The caller passes an array of \<open>residual_count\<close> values.\<close>

record enc_state =
  e_history :: "32 word"
  e_sign_modifier :: "32 word"
  e_i :: nat
  e_out :: bits

definition fold_residual :: "32 word \<Rightarrow> 32 word" where
  "fold_residual r = (if 0 \<le>s r then push_bit 1 r else push_bit 1 (- r) - 1)"

definition encode_zero_run ::
  "alac_options \<Rightarrow> nat \<Rightarrow> 32 word list \<Rightarrow> 32 word \<Rightarrow> nat \<Rightarrow> bits \<Rightarrow> error + enc_state" where
  "encode_zero_run opts residual_count residuals history i out =
     (case LOG2 history of
        Inl e \<Rightarrow> Inl e
      | Inr l \<Rightarrow>
         let k = min (7 - l + signed_drop_bit 6 (history + 16)) (opt_maximum_k opts);
             zi = count_zeroes residual_count residuals 0 i;
             zeroes = (of_nat (fst zi) :: 32 word)
         in
         (case write_residual zeroes k 16 of
            Inl e \<Rightarrow> Inl e
          | Inr w \<Rightarrow>
             Inr \<lparr>e_history = 0,
                  e_sign_modifier = (if zeroes < 0xFFFF then 1 else 0),
                  e_i = snd zi,
                  e_out = out @ w\<rparr>))"

definition encode_residuals_body ::
  "alac_options \<Rightarrow> 32 word \<Rightarrow> nat \<Rightarrow> 32 word list \<Rightarrow> enc_state \<Rightarrow> error + enc_state" where
  "encode_residuals_body opts sample_size residual_count residuals s =
     (let unsigned_i = fold_residual (residuals ! e_i s);
          max_unsigned = push_bit (unat sample_size) 1
      in
      if max_unsigned \<le> unsigned_i then Inl ResidualOverflow
      else
        (case LOG2 (signed_drop_bit 9 (e_history s) + 3) of
           Inl e \<Rightarrow> Inl e
         | Inr k \<Rightarrow>
            (case write_residual (unsigned_i - e_sign_modifier s) (min k (opt_maximum_k opts))
                    sample_size of
               Inl e \<Rightarrow> Inl e
             | Inr w \<Rightarrow>
                if unsigned_i \<le> 0xFFFF then
                  let history = e_history s +
                        (unsigned_i * opt_history_multiplier opts -
                         signed_drop_bit 9 (e_history s * opt_history_multiplier opts));
                      i = Suc (e_i s)
                  in
                  if history <s 128 \<and> i < residual_count
                  then encode_zero_run opts residual_count residuals history i (e_out s @ w)
                  else Inr \<lparr>e_history = history, e_sign_modifier = 0, e_i = i,
                            e_out = e_out s @ w\<rparr>
                else
                  Inr \<lparr>e_history = 0xFFFF, e_sign_modifier = 0, e_i = Suc (e_i s),
                       e_out = e_out s @ w\<rparr>)))"

lemma encode_zero_run_advances:
  "encode_zero_run opts residual_count residuals history i out = Inr s' \<Longrightarrow> i \<le> e_i s'"
  using count_zeroes_le [of i residual_count residuals 0]
  by (auto simp: encode_zero_run_def Let_def split: sum.splits)

lemma encode_residuals_body_advances:
  "encode_residuals_body opts sample_size residual_count residuals s = Inr s' \<Longrightarrow> e_i s < e_i s'"
  by (auto simp: encode_residuals_body_def Let_def split: sum.splits if_splits
           dest: encode_zero_run_advances)

function encode_residuals_loop ::
  "alac_options \<Rightarrow> 32 word \<Rightarrow> nat \<Rightarrow> 32 word list \<Rightarrow> enc_state \<Rightarrow> error + bits" where
  "encode_residuals_loop opts sample_size residual_count residuals s =
     (if e_i s < residual_count then
        (case encode_residuals_body opts sample_size residual_count residuals s of
           Inl e \<Rightarrow> Inl e
         | Inr s' \<Rightarrow> encode_residuals_loop opts sample_size residual_count residuals s')
      else Inr (e_out s))"
  by pat_completeness auto
termination
  by (relation "measure (\<lambda>(opts, sample_size, residual_count, residuals, s).
                  residual_count - e_i s)")
     (auto dest: encode_residuals_body_advances)

definition encode_residuals ::
  "alac_options \<Rightarrow> 32 word \<Rightarrow> nat \<Rightarrow> 32 word list \<Rightarrow> error + bits" where
  "encode_residuals opts sample_size residual_count residuals =
     encode_residuals_loop opts sample_size residual_count residuals
       \<lparr>e_history = opt_initial_history opts, e_sign_modifier = 0, e_i = 0, e_out = []\<rparr>"

subsection \<open>Decoder\<close>

text \<open>\<open>struct alac_parameters\<close>, from the fields the decoder reads.\<close>

record alac_parameters =
  p_block_size :: nat
  p_history_multiplier :: "32 word"
  p_initial_history :: "32 word"
  p_maximum_K :: "32 word"

text \<open>The decoder's \<open>LOG2(int value)\<close> starts from \<open>bits = -1\<close> and shifts an \<open>int\<close>: on a
  negative value the arithmetic shift never reaches 0 and the loop does not return,
  which is the value \<open>None\<close>.\<close>

partial_function (option) LOG2_decoder_loop :: "32 word \<Rightarrow> 32 word \<Rightarrow> 32 word option" where
  "LOG2_decoder_loop v bits =
     (if v = 0 then Some bits else LOG2_decoder_loop (signed_drop_bit 1 v) (bits + 1))"

declare LOG2_decoder_loop.simps [code]

definition LOG2_decoder :: "32 word \<Rightarrow> 32 word option" where
  "LOG2_decoder v = LOG2_decoder_loop v (- 1)"

text \<open>\<open>read_residual\<close> evaluates \<open>(1 << k) - 1\<close> once it has read the
  least-significant bits, in both branches of \<open>if (lsb == 0)\<close>: from \<open>k = 32\<close> on that
  is \<open>UndefinedShift\<close>.\<close>

definition read_residual :: "bits \<Rightarrow> 32 word \<Rightarrow> 32 word \<Rightarrow> error + (32 word \<times> bits)" where
  "read_residual br k sample_size =
     (case read_huffman_MSB 0 br of
        Inl e \<Rightarrow> Inl e
      | Inr (msb, br1) \<Rightarrow>
         if msb = - 1 then br_read (unat sample_size) br1
         else if k = 0 then Inr (msb, br1)
         else
           (case br_read (unat (k - 1)) br1 of
              Inl e \<Rightarrow> Inl e
            | Inr (lsb, br2) \<Rightarrow>
               if lsb = 0 then
                 (if 32 \<le> unat k then Inl UndefinedShift
                  else Inr (msb * (push_bit (unat k) 1 - 1), br2))
               else
                 (case br_read 1 br2 of
                    Inl e \<Rightarrow> Inl e
                  | Inr (b, br3) \<Rightarrow>
                     if 32 \<le> unat k then Inl UndefinedShift
                     else Inr (msb * (push_bit (unat k) 1 - 1) + ((push_bit 1 lsb OR b) - 1),
                               br3))))"

text \<open>A store \<open>a[i] = v\<close> into an array: past the end of the array it is an error of the
  model, so that a theorem can say it does not happen.\<close>

definition array_store :: "'a list \<Rightarrow> nat \<Rightarrow> 'a \<Rightarrow> error + 'a list" where
  "array_store a i v = (if i < length a then Inr (a[i := v]) else Inl ArrayOutOfBounds)"

text \<open>\<open>for (j = 0; j < zero_block_size; j++) residual[i++] = 0;\<close>\<close>

fun store_zeroes :: "32 word list \<Rightarrow> nat \<Rightarrow> nat \<Rightarrow> error + (32 word list \<times> nat)" where
  "store_zeroes residual i 0 = Inr (residual, i)"
| "store_zeroes residual i (Suc n) =
     (case array_store residual i 0 of
        Inl e \<Rightarrow> Inl e
      | Inr residual1 \<Rightarrow> store_zeroes residual1 (Suc i) n)"

record dec_state =
  d_br :: bits
  d_history :: "32 word"
  d_sign_modifier :: "32 word"
  d_i :: nat
  d_residual :: "32 word list"

text \<open>The body of \<open>if ((history < 128) && ((i + 1) < block_size))\<close> in
  \<open>read_residual_block\<close>.\<close>

definition read_zero_run ::
  "alac_parameters \<Rightarrow> nat \<Rightarrow> bits \<Rightarrow> 32 word \<Rightarrow> nat \<Rightarrow> 32 word list \<Rightarrow> error + dec_state" where
  "read_zero_run params block_size br history i residual =
     (case LOG2_decoder history of
        None \<Rightarrow> Inl NoReturn
      | Some l \<Rightarrow>
         (case read_residual br
                 (min (7 - l + c_sdiv (history + 16) 64) (p_maximum_K params)) 16 of
            Inl e \<Rightarrow> Inl e
          | Inr (z, br1) \<Rightarrow>
             let zero_block_size =
                   (if 0 < z then min (unat z) (block_size - i) else unat z)
             in
             (case store_zeroes residual i zero_block_size of
                Inl e \<Rightarrow> Inl e
              | Inr (residual1, i1) \<Rightarrow>
                 Inr \<lparr>d_br = br1, d_history = 0,
                      d_sign_modifier = (if zero_block_size \<le> 0xFFFF then 1 else 0),
                      d_i = i1, d_residual = residual1\<rparr>)))"

text \<open>One pass through the body of \<open>while (i < block_size)\<close> in \<open>read_residual_block\<close>.\<close>

definition read_residual_block_body ::
  "alac_parameters \<Rightarrow> 32 word \<Rightarrow> nat \<Rightarrow> dec_state \<Rightarrow> error + dec_state" where
  "read_residual_block_body params sample_size block_size s =
     (case LOG2_decoder (signed_drop_bit 9 (d_history s) + 3) of
        None \<Rightarrow> Inl NoReturn
      | Some k \<Rightarrow>
         (case read_residual (d_br s) (min k (p_maximum_K params)) sample_size of
            Inl e \<Rightarrow> Inl e
          | Inr (v, br1) \<Rightarrow>
             let unsigned_residual = v + d_sign_modifier s;
                 r = (if unsigned_residual AND 1 \<noteq> 0
                      then - drop_bit 1 (unsigned_residual + 1)
                      else drop_bit 1 unsigned_residual)
             in
             (case array_store (d_residual s) (d_i s) r of
                Inl e \<Rightarrow> Inl e
              | Inr residual1 \<Rightarrow>
                 let i = Suc (d_i s);
                     history =
                       (if 0xFFFF < unsigned_residual then 0xFFFF
                        else d_history s +
                               (unsigned_residual * p_history_multiplier params -
                                drop_bit 9 (d_history s * p_history_multiplier params)))
                 in
                 if history <s 128 \<and> i + 1 < block_size
                 then read_zero_run params block_size br1 history i residual1
                 else Inr \<lparr>d_br = br1, d_history = history, d_sign_modifier = 0,
                           d_i = i, d_residual = residual1\<rparr>)))"

lemma store_zeroes_advances: "store_zeroes residual i n = Inr (residual1, i1) \<Longrightarrow> i1 = i + n"
proof (induction n arbitrary: residual i)
  case 0
  then show ?case by simp
next
  case (Suc n)
  from Suc.prems obtain r where "store_zeroes r (Suc i) n = Inr (residual1, i1)"
    by (auto split: sum.splits)
  then have "i1 = Suc i + n" by (rule Suc.IH)
  then show ?case by simp
qed

lemma read_zero_run_advances:
  "read_zero_run params block_size br history i residual = Inr s' \<Longrightarrow> i \<le> d_i s'"
  by (auto simp: read_zero_run_def Let_def split: option.splits sum.splits prod.splits
           dest: store_zeroes_advances)

lemma read_residual_block_body_advances:
  "read_residual_block_body params sample_size block_size s = Inr s' \<Longrightarrow> d_i s < d_i s'"
  by (auto simp: read_residual_block_body_def Let_def
           split: option.splits sum.splits prod.splits if_splits
           dest: read_zero_run_advances)

function read_residual_block_loop ::
  "alac_parameters \<Rightarrow> 32 word \<Rightarrow> nat \<Rightarrow> dec_state \<Rightarrow> error + (32 word list \<times> bits)" where
  "read_residual_block_loop params sample_size block_size s =
     (if d_i s < block_size then
        (case read_residual_block_body params sample_size block_size s of
           Inl e \<Rightarrow> Inl e
         | Inr s' \<Rightarrow> read_residual_block_loop params sample_size block_size s')
      else Inr (d_residual s, d_br s))"
  by pat_completeness auto
termination
  by (relation "measure (\<lambda>(params, sample_size, block_size, s). block_size - d_i s)")
     (auto dest: read_residual_block_body_advances)

text \<open>\<open>read_residual_block(br, params, sample_size, block_size, residual)\<close>: \<open>residual\<close>
  is the caller's array; the result is the array as the function leaves it, and the
  reader.\<close>

definition read_residual_block ::
  "bits \<Rightarrow> alac_parameters \<Rightarrow> 32 word \<Rightarrow> nat \<Rightarrow> 32 word list \<Rightarrow> error + (32 word list \<times> bits)"
  where
  "read_residual_block br params sample_size block_size residual =
     read_residual_block_loop params sample_size block_size
       \<lparr>d_br = br, d_history = p_initial_history params, d_sign_modifier = 0, d_i = 0,
        d_residual = residual\<rparr>"

section \<open>The adaptive predictor and the channel decorrelator\<close>

definition SIGN_ONLY :: "32 word \<Rightarrow> 32 word" where
  "SIGN_ONLY v = (if 0 <s v then 1 else if v <s 0 then - 1 else 0)"

definition TRUNCATE_BITS :: "32 word \<Rightarrow> 32 word \<Rightarrow> 32 word" where
  "TRUNCATE_BITS v bits =
     (let truncated = v AND (push_bit (unat bits) 1 - 1) in
      if truncated AND push_bit (unat (bits - 1)) 1 \<noteq> 0
      then truncated - push_bit (unat bits) 1
      else truncated)"

subsection \<open>Encoder: \<open>calculate_residuals\<close> and \<open>correlate_channels\<close>\<close>

text \<open>The two adaptation loops of \<open>calculate_residuals\<close>, from \<open>j\<close> on: the first runs when
  \<open>error > 0\<close> and stops at \<open>error <= 0\<close>, the second runs when \<open>error < 0\<close> and stops at
  \<open>error >= 0\<close>. The result is the array \<open>coefficients\<close>.\<close>

function adapt_positive ::
  "32 word list \<Rightarrow> 32 word \<Rightarrow> nat \<Rightarrow> nat \<Rightarrow> nat \<Rightarrow> 32 word list \<Rightarrow> 32 word \<Rightarrow> 32 word list" where
  "adapt_positive samples base_sample i order j coefficients err =
     (if j < order then
        let diff = base_sample - samples ! (i - order + j);
            sign = SIGN_ONLY diff;
            coefficients1 =
              coefficients[order - j - 1 := coefficients ! (order - j - 1) - sign];
            err1 = err - signed_drop_bit 9 (diff * sign) * of_nat (j + 1)
        in if err1 \<le>s 0 then coefficients1
           else adapt_positive samples base_sample i order (Suc j) coefficients1 err1
      else coefficients)"
  by pat_completeness auto
termination
  by (relation "measure (\<lambda>(samples, base_sample, i, order, j, coefficients, err). order - j)")
     auto

function adapt_negative ::
  "32 word list \<Rightarrow> 32 word \<Rightarrow> nat \<Rightarrow> nat \<Rightarrow> nat \<Rightarrow> 32 word list \<Rightarrow> 32 word \<Rightarrow> 32 word list" where
  "adapt_negative samples base_sample i order j coefficients err =
     (if j < order then
        let diff = base_sample - samples ! (i - order + j);
            sign = SIGN_ONLY diff;
            coefficients1 =
              coefficients[order - j - 1 := coefficients ! (order - j - 1) + sign];
            err1 = err - signed_drop_bit 9 (diff * - sign) * of_nat (j + 1)
        in if 0 \<le>s err1 then coefficients1
           else adapt_negative samples base_sample i order (Suc j) coefficients1 err1
      else coefficients)"
  by pat_completeness auto
termination
  by (relation "measure (\<lambda>(samples, base_sample, i, order, j, coefficients, err). order - j)")
     auto

text \<open>One pass through the body of the loop \<open>for (; i < sample_count; i++)\<close> that follows
  the warm-up: the state is the array \<open>coefficients\<close> and the residuals written so far.\<close>

definition calculate_residuals_body ::
  "32 word \<Rightarrow> 32 word list \<Rightarrow> nat \<Rightarrow> nat \<Rightarrow> 32 word list \<times> 32 word list
     \<Rightarrow> 32 word list \<times> 32 word list" where
  "calculate_residuals_body sample_size samples order i st =
     (let coefficients = fst st;
          base_sample = samples ! (i - order - 1);
          lpc_sum = fold (\<lambda>j acc. acc + (scast (coefficients ! j) :: 64 word) *
                                         scast (samples ! (i - j - 1) - base_sample))
                      [0..<order] (push_bit 8 1);
          err = TRUNCATE_BITS
                  (samples ! i - base_sample - ucast (signed_drop_bit 9 lpc_sum))
                  sample_size;
          coefficients1 =
            (if 0 <s err then adapt_positive samples base_sample i order 0 coefficients err
             else if err <s 0 then adapt_negative samples base_sample i order 0 coefficients err
             else coefficients)
      in (coefficients1, snd st @ [err]))"

text \<open>\<open>calculate_residuals\<close> reads \<open>samples[0]\<close>, and with \<open>order < 31\<close> its warm-up loop
  reads \<open>samples[i]\<close> and writes \<open>residuals[i]\<close> up to \<open>i = order\<close> whatever
  \<open>sample_count\<close> is; \<open>memcpy\<close> reads \<open>order\<close> coefficients. Where that leaves the arrays
  the model has \<open>ArrayOutOfBounds\<close>; otherwise every index below is in range.\<close>

definition calculate_residuals ::
  "32 word \<Rightarrow> nat \<Rightarrow> 32 word list \<Rightarrow> nat \<Rightarrow> 32 word list \<Rightarrow> error + 32 word list" where
  "calculate_residuals sample_size sample_count samples order qlp_coefficients =
     (if sample_count = 0 \<or> length samples < sample_count \<or> length qlp_coefficients < order
         \<or> (order < 31 \<and> sample_count < order + 1)
      then Inl ArrayOutOfBounds
      else if order < 31 then
        Inr (snd (fold (calculate_residuals_body sample_size samples order)
                    [order + 1..<sample_count]
                    (take order qlp_coefficients,
                     samples ! 0 #
                     map (\<lambda>i. TRUNCATE_BITS (samples ! i - samples ! (i - 1)) sample_size)
                       [1..<order + 1])))
      else
        Inr (samples ! 0 #
             map (\<lambda>i. TRUNCATE_BITS (samples ! i - samples ! (i - 1)) sample_size)
               [1..<sample_count]))"

text \<open>\<open>correlate_channels\<close>: the difference is an \<open>int\<close>, widened to \<open>int64_t\<close>, multiplied
  by the weight, shifted right and cut back to an \<open>int\<close>. The result is
  \<open>correlated_channels\<close>.\<close>

definition correlate_channels ::
  "32 word list list \<Rightarrow> 32 word \<Rightarrow> 32 word \<Rightarrow> error + 32 word list list" where
  "correlate_channels channels interlacing_shift interlacing_leftweight =
     (if length channels \<noteq> 2 then Inl AssertionFailed
      else if length (channels ! 0) \<noteq> length (channels ! 1) then Inl AssertionFailed
      else
        let channel0 = channels ! 0; channel1 = channels ! 1;
            frame_count = length channel0
        in
        if 0 < interlacing_leftweight then
          Inr [map (\<lambda>i. channel1 ! i +
                        ucast (signed_drop_bit (unat interlacing_shift)
                                 ((scast (channel0 ! i - channel1 ! i) :: 64 word) *
                                  ucast interlacing_leftweight)))
                 [0..<frame_count],
               map (\<lambda>i. channel0 ! i - channel1 ! i) [0..<frame_count]]
        else Inr [channel0, channel1])"

subsection \<open>Decoder: \<open>decode_subframe\<close> and \<open>decorrelate_channels\<close>\<close>

record subframe_header =
  prediction_type :: "32 word"
  shift_needed :: "32 word"
  rice_modifier :: "32 word"
  coeff_count :: "32 word"
  coeff :: "32 word list"

function adapt_positive_dec ::
  "32 word \<Rightarrow> 32 word list \<Rightarrow> 32 word \<Rightarrow> nat \<Rightarrow> nat \<Rightarrow> nat \<Rightarrow> 32 word list \<Rightarrow> 32 word
     \<Rightarrow> 32 word list" where
  "adapt_positive_dec qlp_shift_needed subframe base_sample i count j cs residual =
     (if j < count then
        let diff = base_sample - subframe ! (i - count + j);
            sign = SIGN_ONLY diff;
            cs1 = cs[count - j - 1 := cs ! (count - j - 1) - sign];
            residual1 = residual -
              signed_drop_bit (unat qlp_shift_needed) (diff * sign) * of_nat (j + 1)
        in if residual1 \<le>s 0 then cs1
           else adapt_positive_dec qlp_shift_needed subframe base_sample i count (Suc j)
                  cs1 residual1
      else cs)"
  by pat_completeness auto
termination
  by (relation "measure (\<lambda>(qlp_shift_needed, subframe, base_sample, i, count, j, cs,
                           residual). count - j)")
     auto

function adapt_negative_dec ::
  "32 word \<Rightarrow> 32 word list \<Rightarrow> 32 word \<Rightarrow> nat \<Rightarrow> nat \<Rightarrow> nat \<Rightarrow> 32 word list \<Rightarrow> 32 word
     \<Rightarrow> 32 word list" where
  "adapt_negative_dec qlp_shift_needed subframe base_sample i count j cs residual =
     (if j < count then
        let diff = base_sample - subframe ! (i - count + j);
            sign = SIGN_ONLY diff;
            cs1 = cs[count - j - 1 := cs ! (count - j - 1) + sign];
            residual1 = residual -
              signed_drop_bit (unat qlp_shift_needed) (diff * - sign) * of_nat (j + 1)
        in if 0 \<le>s residual1 then cs1
           else adapt_negative_dec qlp_shift_needed subframe base_sample i count (Suc j)
                  cs1 residual1
      else cs)"
  by pat_completeness auto
termination
  by (relation "measure (\<lambda>(qlp_shift_needed, subframe, base_sample, i, count, j, cs,
                           residual). count - j)")
     auto

text \<open>One pass through the body of \<open>for (i = coeff_count + 1; i < block_size; i++)\<close>: the
  state is the array \<open>coeff\<close> and the part of \<open>subframe\<close> written so far. Each product
  \<open>coeff[j] * (subframe[i - j - 1] - base_sample)\<close> is an \<open>int\<close> before it is added to the
  \<open>int64_t\<close> sum, and so is \<open>1 << (qlp_shift_needed - 1)\<close>.\<close>

definition decode_subframe_body ::
  "32 word \<Rightarrow> nat \<Rightarrow> 32 word list \<Rightarrow> nat \<Rightarrow> 32 word list \<times> 32 word list
     \<Rightarrow> 32 word list \<times> 32 word list" where
  "decode_subframe_body qlp_shift_needed count residuals i st =
     (let cs = fst st; subframe = snd st;
          residual = residuals ! i;
          base_sample = subframe ! (i - count - 1);
          qlp_sum = fold (\<lambda>j acc. acc + (scast (cs ! j * (subframe ! (i - j - 1) - base_sample))
                                           :: 64 word))
                      [0..<count] 0;
          qlp_sum1 = qlp_sum +
                     scast (push_bit (unat (qlp_shift_needed - 1)) 1 :: 32 word);
          qlp_sum2 = signed_drop_bit (unat qlp_shift_needed) qlp_sum1;
          subframe1 = subframe @ [ucast qlp_sum2 + residual + base_sample];
          cs1 =
            (if 0 <s residual
             then adapt_positive_dec qlp_shift_needed subframe1 base_sample i count 0 cs residual
             else if residual <s 0
             then adapt_negative_dec qlp_shift_needed subframe1 base_sample i count 0 cs residual
             else cs)
      in (cs1, subframe1))"

text \<open>
  \<open>decode_subframe\<close> writes \<open>subframe[0]\<close> and then \<open>subframe[1 .. coeff_count]\<close> whatever
  \<open>block_size\<close> is: with \<open>block_size <= coeff_count\<close> it leaves the arrays, which is
  \<open>ArrayOutOfBounds\<close>.

  In the predictor loop the rounding term is \<open>1 << (qlp_shift_needed - 1)\<close> with an
  \<open>unsigned\<close> count: for \<open>qlp_shift_needed = 0\<close> the count is 4294967295, and a shift of
  an \<open>int\<close> by 32 or more has no defined result in C. This is the one shift of the
  codec whose count is computed by a subtraction that can wrap; the model has
  \<open>UndefinedShift\<close> when the loop runs with such a count.
\<close>

definition decode_subframe ::
  "nat \<Rightarrow> subframe_header \<Rightarrow> 32 word list \<Rightarrow> error + 32 word list" where
  "decode_subframe block_size hdr residuals =
     (let count = unat (coeff_count hdr) in
      if block_size = 0 \<or> block_size < count + 1 \<or> length residuals < block_size
         \<or> length (coeff hdr) < count
      then Inl ArrayOutOfBounds
      else if count + 1 < block_size \<and> 32 \<le> unat (shift_needed hdr - 1)
      then Inl UndefinedShift
      else
        Inr (snd (fold (decode_subframe_body (shift_needed hdr) count residuals)
                    [count + 1..<block_size]
                    (coeff hdr,
                     fold (\<lambda>i subframe. subframe @ [residuals ! i + subframe ! (i - 1)])
                       [1..<count + 1] [residuals ! 0]))))"

text \<open>\<open>decorrelate_channels\<close>; the result is \<open>(left, right)\<close>.\<close>

definition decorrelate_channels ::
  "nat \<Rightarrow> 32 word \<Rightarrow> 32 word \<Rightarrow> 32 word list \<Rightarrow> 32 word list
     \<Rightarrow> 32 word list \<times> 32 word list" where
  "decorrelate_channels block_size interlacing_shift interlacing_leftweight
       subframe_0 subframe_1 =
     (let right = map (\<lambda>i. subframe_0 ! i -
                            ucast (signed_drop_bit (unat interlacing_shift)
                                     ((scast (subframe_1 ! i) :: 64 word) *
                                      ucast interlacing_leftweight)))
                    [0..<block_size];
          left = map (\<lambda>i. subframe_1 ! i + right ! i) [0..<block_size]
      in (left, right))"

section \<open>Frames and framesets: encoder\<close>

text \<open>
  \<open>struct alac_context\<close>, as far as the frame writers read it. The recorders are scratch
  space: each is reset before it is written, except \<open>best_interlaced_frame\<close>, whose
  content on entry is the field \<open>enc_best_interlaced_frame\<close>.

  \<open>compute_coefficients\<close> obtains its coefficients in floating point: \<open>window_signal\<close>
  with the encoder's \<open>tukey_window\<close>, \<open>autocorrelate\<close>, \<open>compute_lp_coefficients\<close> and
  \<open>quantize_coefficients\<close> work on C \<open>double\<close>s, which this development does not
  model. Their combined result is the parameter \<open>enc_quantized_lp\<close>, a function of
  the samples: \<open>None\<close> when \<open>autocorrelated[0] == 0.0\<close>, and otherwise the arrays
  \<open>qlp_coefficients4\<close> and \<open>qlp_coefficients8\<close>. Everything the encoder does with the
  coefficients is integer arithmetic and is modelled.
\<close>

record alac_context =
  enc_options :: alac_options
  enc_bits_per_sample :: "32 word"
  enc_quantized_lp :: "32 word list \<Rightarrow> (32 word list \<times> 32 word list) option"
  enc_best_interlaced_frame :: bits

text \<open>\<open>bits_written\<close> of a recorder is an \<open>unsigned\<close>.\<close>

definition bits_written :: "bits \<Rightarrow> 32 word" where
  "bits_written r = of_nat (length r)"

text \<open>\<open>compute_coefficients\<close>: the result is \<open>*order\<close>, \<open>qlp_coefficients\<close> and what was
  written to \<open>residual\<close>.\<close>

definition compute_coefficients ::
  "alac_context \<Rightarrow> nat \<Rightarrow> 32 word list \<Rightarrow> 32 word \<Rightarrow> error + (nat \<times> 32 word list \<times> bits)"
  where
  "compute_coefficients encoder sample_count samples sample_size =
     (case enc_quantized_lp encoder (take sample_count samples) of
        Some (qlp_coefficients4, qlp_coefficients8) \<Rightarrow>
          (case calculate_residuals sample_size sample_count samples 4 qlp_coefficients4 of
             Inl e \<Rightarrow> Inl e
           | Inr residual_values4 \<Rightarrow>
          (case calculate_residuals sample_size sample_count samples 8 qlp_coefficients8 of
             Inl e \<Rightarrow> Inl e
           | Inr residual_values8 \<Rightarrow>
          (case encode_residuals (enc_options encoder) sample_size sample_count
                  residual_values4 of
             Inl e \<Rightarrow> Inl e
           | Inr residual_block4 \<Rightarrow>
          (case encode_residuals (enc_options encoder) sample_size sample_count
                  residual_values8 of
             Inl e \<Rightarrow> Inl e
           | Inr residual_block8 \<Rightarrow>
              if bits_written residual_block4 < bits_written residual_block8 + 64
              then Inr (4, take 4 qlp_coefficients4, residual_block4)
              else Inr (8, take 8 qlp_coefficients8, residual_block8)))))
      | None \<Rightarrow>
          (case calculate_residuals sample_size sample_count samples 4 [0, 0, 0, 0] of
             Inl e \<Rightarrow> Inl e
           | Inr residual_values4 \<Rightarrow>
          (case encode_residuals (enc_options encoder) sample_size sample_count
                  residual_values4 of
             Inl e \<Rightarrow> Inl e
           | Inr residual \<Rightarrow> Inr (4, [0, 0, 0, 0], residual))))"

definition write_subframe_header :: "nat \<Rightarrow> 32 word list \<Rightarrow> bits" where
  "write_subframe_header order qlp_coefficients =
     bw_write 4 0 @ bw_write 4 9 @ bw_write 3 4 @ bw_write 5 (of_nat order) @
     concat (map (\<lambda>i. bw_write_signed 16 (qlp_coefficients ! i)) [0..<order])"

text \<open>The frame header that the three frame writers start with: 16 unused bits, the
  \<open>has_sample_count\<close> bit, \<open>uncompressed_LSBs\<close>, the \<open>not compressed\<close> bit and, for a
  short block, the sample count.\<close>

definition write_frame_header :: "alac_context \<Rightarrow> nat \<Rightarrow> 32 word \<Rightarrow> 32 word \<Rightarrow> bits" where
  "write_frame_header encoder len uncompressed_LSBs not_compressed =
     bw_write 16 0 @
     (if len = opt_block_size (enc_options encoder) then bw_write 1 0 else bw_write 1 1) @
     bw_write 2 uncompressed_LSBs @ bw_write 1 not_compressed @
     (if len \<noteq> opt_block_size (enc_options encoder) then bw_write 32 (of_nat len) else [])"

text \<open>\<open>write_uncompressed_frame\<close> reads \<open>channels[c][i]\<close> for every \<open>i\<close> below the length of
  channel 0.\<close>

definition write_uncompressed_frame :: "alac_context \<Rightarrow> 32 word list list \<Rightarrow> error + bits" where
  "write_uncompressed_frame encoder channels =
     (if channels = [] \<or> (\<exists>ch \<in> set channels. length ch < length (channels ! 0))
      then Inl ArrayOutOfBounds
      else
        Inr (write_frame_header encoder (length (channels ! 0)) 0 1 @
             concat (map (\<lambda>i. concat (map (\<lambda>c. bw_write_signed
                                                 (unat (enc_bits_per_sample encoder))
                                                 (channels ! c ! i))
                                        [0..<length channels]))
                       [0..<length (channels ! 0)])))"

definition write_LSBs :: "32 word \<Rightarrow> 32 word list \<Rightarrow> bits" where
  "write_LSBs uncompressed_LSBs LSBs =
     (if 0 < uncompressed_LSBs
      then concat (map (\<lambda>l. bw_write (unat (uncompressed_LSBs * 8)) l) LSBs)
      else [])"

definition write_non_interlaced_frame ::
  "alac_context \<Rightarrow> 32 word \<Rightarrow> 32 word list \<Rightarrow> 32 word list list \<Rightarrow> error + bits" where
  "write_non_interlaced_frame encoder uncompressed_LSBs LSBs channels =
     (if length channels \<noteq> 1 then Inl AssertionFailed
      else
        (case compute_coefficients encoder (length (channels ! 0)) (channels ! 0)
                (enc_bits_per_sample encoder - uncompressed_LSBs * 8) of
           Inl e \<Rightarrow> Inl e
         | Inr (order, qlp_coefficients, residual) \<Rightarrow>
            Inr (write_frame_header encoder (length (channels ! 0)) uncompressed_LSBs 0 @
                 bw_write 8 0 @ bw_write 8 0 @
                 write_subframe_header order qlp_coefficients @
                 write_LSBs uncompressed_LSBs LSBs @
                 residual)))"

definition write_interlaced_frame ::
  "alac_context \<Rightarrow> 32 word \<Rightarrow> 32 word list \<Rightarrow> 32 word \<Rightarrow> 32 word \<Rightarrow> 32 word list list
     \<Rightarrow> error + bits" where
  "write_interlaced_frame encoder uncompressed_LSBs LSBs interlacing_shift
       interlacing_leftweight channels =
     (if length channels \<noteq> 2 then Inl AssertionFailed
      else
        (case correlate_channels channels interlacing_shift interlacing_leftweight of
           Inl e \<Rightarrow> Inl e
         | Inr correlated_channels \<Rightarrow>
        (case compute_coefficients encoder (length (correlated_channels ! 0))
                (correlated_channels ! 0)
                (enc_bits_per_sample encoder - uncompressed_LSBs * 8 + 1) of
           Inl e \<Rightarrow> Inl e
         | Inr (order0, qlp_coefficients0, residual0) \<Rightarrow>
        (case compute_coefficients encoder (length (correlated_channels ! 1))
                (correlated_channels ! 1)
                (enc_bits_per_sample encoder - uncompressed_LSBs * 8 + 1) of
           Inl e \<Rightarrow> Inl e
         | Inr (order1, qlp_coefficients1, residual1) \<Rightarrow>
            Inr (write_frame_header encoder (length (channels ! 0)) uncompressed_LSBs 0 @
                 bw_write 8 interlacing_shift @ bw_write 8 interlacing_leftweight @
                 write_subframe_header order0 qlp_coefficients0 @
                 write_subframe_header order1 qlp_coefficients1 @
                 write_LSBs uncompressed_LSBs LSBs @
                 residual0 @ residual1)))))"

text \<open>
  The search of \<open>write_compressed_frame\<close> over the interlacing leftweights.
  \<open>candidate\<close> is \<open>write_interlaced_frame\<close> into the reset recorder \<open>interlaced_frame\<close>;
  the state of the loop is \<open>best_interlaced_frame_bits\<close> and the content of
  \<open>best_interlaced_frame\<close> (after \<open>recorder_swap\<close> the loop's other recorder is the
  one it resets next). The list holds the leftweights the loop still visits.
\<close>

fun interlacing_search ::
  "(32 word \<Rightarrow> error + bits) \<Rightarrow> 32 word list \<Rightarrow> 32 word \<Rightarrow> bits \<Rightarrow> error + bits" where
  "interlacing_search candidate [] best_bits best = Inr best"
| "interlacing_search candidate (leftweight # rest) best_bits best =
     (case candidate leftweight of
        Inl e \<Rightarrow> Inl e
      | Inr interlaced_frame \<Rightarrow>
         if bits_written interlaced_frame < best_bits
         then interlacing_search candidate rest (bits_written interlaced_frame)
                interlaced_frame
         else interlacing_search candidate rest best_bits best)"

text \<open>The leftweights of \<open>for (leftweight = minimum; leftweight <= maximum; leftweight++)\<close>
  with \<open>unsigned\<close> bounds. With \<open>maximum = UINT_MAX\<close> the condition never fails: the loop
  only ends by the \<open>longjmp\<close> of a candidate, and otherwise not at all.\<close>

definition leftweights :: "32 word \<Rightarrow> 32 word \<Rightarrow> 32 word list" where
  "leftweights minimum maximum = map of_nat [unat minimum..<unat maximum + 1]"

definition write_best_interlaced_frame ::
  "alac_context \<Rightarrow> 32 word \<Rightarrow> 32 word list \<Rightarrow> 32 word list list \<Rightarrow> error + bits" where
  "write_best_interlaced_frame encoder uncompressed_LSBs LSBs channels =
     (case interlacing_search
             (\<lambda>leftweight. write_interlaced_frame encoder uncompressed_LSBs LSBs 2
                               leftweight channels)
             (leftweights (opt_minimum_interlacing_leftweight (enc_options encoder))
                          (opt_maximum_interlacing_leftweight (enc_options encoder)))
             (- 1) (enc_best_interlaced_frame encoder) of
        Inl e \<Rightarrow> Inl e
      | Inr best \<Rightarrow>
         if opt_maximum_interlacing_leftweight (enc_options encoder) = - 1
            \<and> opt_minimum_interlacing_leftweight (enc_options encoder)
                \<le> opt_maximum_interlacing_leftweight (enc_options encoder)
         then Inl NoReturn
         else Inr best)"

text \<open>
  \<open>write_compressed_frame\<close>. Up to 16 bits per sample there are no uncompressed
  least-significant bits and the frame writers get \<open>channels\<close>. Above, the low bits of
  every sample go to \<open>LSBs\<close>, sample by sample and channel by channel, and the rest
  to \<open>channels_MSB\<close>; these loops read \<open>channels[c][i]\<close> for every \<open>i\<close> below the length
  of channel 0. \<open>extract_LSBs\<close> is \<open>uncompressed_LSBs\<close>, \<open>LSBs\<close> and the channels the
  frame writers get. The function has the search over the leftweights twice, once in
  each branch, with the same text; the model has it once.
\<close>

definition extract_LSBs ::
  "alac_context \<Rightarrow> 32 word list list \<Rightarrow> 32 word \<times> 32 word list \<times> 32 word list list" where
  "extract_LSBs encoder channels =
     (if enc_bits_per_sample encoder \<le> 16 then (0, [], channels)
      else
        let shift = unat (enc_bits_per_sample encoder - 16) in
        ((enc_bits_per_sample encoder - 16) div 8,
         concat (map (\<lambda>i. map (\<lambda>c. channels ! c ! i AND (push_bit shift 1 - 1))
                              [0..<length channels])
                   [0..<length (channels ! 0)]),
         map (\<lambda>c. map (\<lambda>i. signed_drop_bit shift (channels ! c ! i))
                      [0..<length (channels ! 0)])
           [0..<length channels]))"

definition write_compressed_frame :: "alac_context \<Rightarrow> 32 word list list \<Rightarrow> error + bits" where
  "write_compressed_frame encoder channels =
     (if 16 < enc_bits_per_sample encoder
         \<and> (channels = [] \<or> (\<exists>ch \<in> set channels. length ch < length (channels ! 0)))
      then Inl ArrayOutOfBounds
      else
        (case extract_LSBs encoder channels of
           (uncompressed_LSBs, LSBs, channels_MSB) \<Rightarrow>
             if length channels = 1
             then write_non_interlaced_frame encoder uncompressed_LSBs LSBs channels_MSB
             else write_best_interlaced_frame encoder uncompressed_LSBs LSBs channels_MSB))"

text \<open>\<open>write_frame\<close> and \<open>write_frameset\<close> take the output stream \<open>bs\<close> as written so far
  and return it with what they append. The compressed attempt goes to the recorder
  \<open>compressed_frame\<close>; \<open>setjmp\<close> catches the \<open>longjmp\<close> of the residual overflow and
  nothing else.\<close>

definition write_frame :: "bits \<Rightarrow> alac_context \<Rightarrow> 32 word list list \<Rightarrow> error + bits" where
  "write_frame bs encoder channels =
     (if length channels \<noteq> 1 \<and> length channels \<noteq> 2 then Inl AssertionFailed
      else
        let bs1 = bs @ bw_write 3 (of_nat (length channels) - 1) in
        if 10 \<le> length (channels ! 0) then
          (case write_compressed_frame encoder channels of
             Inr compressed_frame \<Rightarrow> Inr (bs1 @ compressed_frame)
           | Inl ResidualOverflow \<Rightarrow>
               (case write_uncompressed_frame encoder channels of
                  Inl e \<Rightarrow> Inl e
                | Inr uncompressed \<Rightarrow> Inr (bs1 @ uncompressed))
           | Inl e \<Rightarrow> Inl e)
        else
          (case write_uncompressed_frame encoder channels of
             Inl e \<Rightarrow> Inl e
           | Inr uncompressed \<Rightarrow> Inr (bs1 @ uncompressed)))"

text \<open>The frames of a frameset, as lists of channel indices, from the \<open>switch\<close> of
  \<open>write_frameset\<close>.\<close>

definition frameset_layout :: "nat \<Rightarrow> nat list list" where
  "frameset_layout n =
     (if n = 1 then [[0]]
      else if n = 2 then [[0, 1]]
      else if n = 3 then [[2], [0, 1]]
      else if n = 4 then [[2], [0, 1], [3]]
      else if n = 5 then [[2], [0, 1], [3, 4]]
      else if n = 6 then [[2], [0, 1], [4, 5], [3]]
      else if n = 7 then [[2], [0, 1], [4, 5], [6], [3]]
      else if n = 8 then [[2], [6, 7], [0, 1], [4, 5], [3]]
      else map (\<lambda>i. [i]) [0..<n])"

fun write_frames ::
  "bits \<Rightarrow> alac_context \<Rightarrow> 32 word list list \<Rightarrow> nat list list \<Rightarrow> error + bits" where
  "write_frames bs encoder channels [] = Inr bs"
| "write_frames bs encoder channels (frame # frames) =
     (case write_frame bs encoder (map (\<lambda>c. channels ! c) frame) of
        Inl e \<Rightarrow> Inl e
      | Inr bs1 \<Rightarrow> write_frames bs1 encoder channels frames)"

definition write_frameset :: "bits \<Rightarrow> alac_context \<Rightarrow> 32 word list list \<Rightarrow> error + bits" where
  "write_frameset bs encoder channels =
     (case write_frames bs encoder channels (frameset_layout (length channels)) of
        Inl e \<Rightarrow> Inl e
      | Inr bs1 \<Rightarrow> Inr (bw_byte_align (bs1 @ bw_write 3 7)))"

text \<open>
  \<open>encode_alac\<close>. The PCM reader is the list of the blocks its \<open>read\<close> calls deliver,
  each block one array per channel (what the loop over \<open>get_sample\<close> builds), every
  read of at least one and at most \<open>block_size\<close> PCM frames, with the status \<open>PCM_OK\<close>
  at the end. The output starts with the 32-bit size and the name of the \<open>mdat\<close>
  atom; the size is written last, once the framesets are counted. The result is the
  output and the list of frame sizes, as byte size and PCM frames.
\<close>

fun write_framesets ::
  "bits \<Rightarrow> alac_context \<Rightarrow> 32 word list list list \<Rightarrow> (nat \<times> nat) list
     \<Rightarrow> error + (bits \<times> (nat \<times> nat) list)" where
  "write_framesets output encoder [] frame_sizes = Inr (output, frame_sizes)"
| "write_framesets output encoder (channels # blocks) frame_sizes =
     (case write_frameset output encoder channels of
        Inl e \<Rightarrow> Inl e
      | Inr output1 \<Rightarrow>
         write_framesets output1 encoder blocks
           (frame_sizes @ [((length output1 - length output) div 8,
                            length (channels ! 0))]))"

definition mdat_name :: bits where
  "mdat_name = bw_write 8 0x6D @ bw_write 8 0x64 @ bw_write 8 0x61 @ bw_write 8 0x74"

definition encode_alac ::
  "(32 word list \<Rightarrow> (32 word list \<times> 32 word list) option) \<Rightarrow> 32 word
     \<Rightarrow> 32 word list list list \<Rightarrow> nat \<Rightarrow> 32 word \<Rightarrow> 32 word \<Rightarrow> 32 word
     \<Rightarrow> error + (bits \<times> (nat \<times> nat) list)" where
  "encode_alac quantized_lp bits_per_sample blocks block_size initial_history
       history_multiplier maximum_k =
     (let encoder =
            \<lparr>enc_options =
               \<lparr>opt_block_size = block_size, opt_initial_history = initial_history,
                opt_history_multiplier = history_multiplier, opt_maximum_k = maximum_k,
                opt_minimum_interlacing_leftweight = 0,
                opt_maximum_interlacing_leftweight = 4\<rparr>,
             enc_bits_per_sample = bits_per_sample,
             enc_quantized_lp = quantized_lp,
             enc_best_interlaced_frame = []\<rparr>
      in
      (case write_framesets (bw_write 32 0 @ mdat_name) encoder blocks [] of
         Inl e \<Rightarrow> Inl e
       | Inr (output, frame_sizes) \<Rightarrow>
          Inr (bw_write 32 (of_nat (8 + sum_list (map fst frame_sizes))) @ drop 32 output,
               frame_sizes)))"

section \<open>Frames and framesets: decoder\<close>

text \<open>\<open>read_subframe_header\<close>: the loop over the coefficients reads \<open>coeff_count\<close>
  signed 16-bit values.\<close>

fun read_coefficients :: "nat \<Rightarrow> bits \<Rightarrow> error + (32 word list \<times> bits)" where
  "read_coefficients 0 br = Inr ([], br)"
| "read_coefficients (Suc n) br =
     (case br_read_signed 16 br of
        Inl e \<Rightarrow> Inl e
      | Inr (c, br1) \<Rightarrow>
         (case read_coefficients n br1 of
            Inl e \<Rightarrow> Inl e
          | Inr (cs, br2) \<Rightarrow> Inr (c # cs, br2)))"

definition read_subframe_header :: "bits \<Rightarrow> error + (subframe_header \<times> bits)" where
  "read_subframe_header br =
     (case br_read 4 br of
        Inl e \<Rightarrow> Inl e
      | Inr (pt, br1) \<Rightarrow>
         if pt \<noteq> 0 then Inl INVALID_PREDICTION_TYPE
         else
           (case br_read 4 br1 of
              Inl e \<Rightarrow> Inl e
            | Inr (sn, br2) \<Rightarrow>
           (case br_read 3 br2 of
              Inl e \<Rightarrow> Inl e
            | Inr (rm, br3) \<Rightarrow>
           (case br_read 5 br3 of
              Inl e \<Rightarrow> Inl e
            | Inr (cc, br4) \<Rightarrow>
           (case read_coefficients (unat cc) br4 of
              Inl e \<Rightarrow> Inl e
            | Inr (cs, br5) \<Rightarrow>
               Inr (\<lparr>prediction_type = pt, shift_needed = sn, rice_modifier = rm,
                     coeff_count = cc, coeff = cs\<rparr>, br5))))))"

fun read_subframe_headers :: "nat \<Rightarrow> bits \<Rightarrow> error + (subframe_header list \<times> bits)" where
  "read_subframe_headers 0 br = Inr ([], br)"
| "read_subframe_headers (Suc n) br =
     (case read_subframe_header br of
        Inl e \<Rightarrow> Inl e
      | Inr (h, br1) \<Rightarrow>
         (case read_subframe_headers n br1 of
            Inl e \<Rightarrow> Inl e
          | Inr (hs, br2) \<Rightarrow> Inr (h # hs, br2)))"

text \<open>\<open>n\<close> reads of \<open>width\<close> bits each, in stream order.\<close>

fun read_values :: "nat \<Rightarrow> nat \<Rightarrow> bits \<Rightarrow> error + (32 word list \<times> bits)" where
  "read_values width 0 br = Inr ([], br)"
| "read_values width (Suc n) br =
     (case br_read width br of
        Inl e \<Rightarrow> Inl e
      | Inr (v, br1) \<Rightarrow>
         (case read_values width n br1 of
            Inl e \<Rightarrow> Inl e
          | Inr (vs, br2) \<Rightarrow> Inr (v # vs, br2)))"

fun read_signed_values :: "nat \<Rightarrow> nat \<Rightarrow> bits \<Rightarrow> error + (32 word list \<times> bits)" where
  "read_signed_values width 0 br = Inr ([], br)"
| "read_signed_values width (Suc n) br =
     (case br_read_signed width br of
        Inl e \<Rightarrow> Inl e
      | Inr (v, br1) \<Rightarrow>
         (case read_signed_values width n br1 of
            Inl e \<Rightarrow> Inl e
          | Inr (vs, br2) \<Rightarrow> Inr (v # vs, br2)))"

text \<open>The loop \<open>for (c = 0; c < channels; c++)\<close> over \<open>read_residual_block\<close> and
  \<open>decode_subframe\<close>. The array \<open>residual\<close> is a fresh local of \<open>block_size\<close> slots;
  \<open>read_residual_block\<close> writes every one of them before it returns, so what the
  slots hold before does not matter and the model starts them at 0.\<close>

fun decode_subframes ::
  "alac_parameters \<Rightarrow> 32 word \<Rightarrow> nat \<Rightarrow> subframe_header list \<Rightarrow> bits
     \<Rightarrow> error + (32 word list list \<times> bits)" where
  "decode_subframes params sample_size block_size [] br = Inr ([], br)"
| "decode_subframes params sample_size block_size (h # hs) br =
     (case read_residual_block br params sample_size block_size (replicate block_size 0) of
        Inl e \<Rightarrow> Inl e
      | Inr (residual, br1) \<Rightarrow>
         (case decode_subframe block_size h residual of
            Inl e \<Rightarrow> Inl e
          | Inr subframe \<Rightarrow>
             (case decode_subframes params sample_size block_size hs br1 of
                Inl e \<Rightarrow> Inl e
              | Inr (subframes, br2) \<Rightarrow> Inr (subframe # subframes, br2))))"

text \<open>\<open>decode_compressed_frame\<close> and \<open>decode_uncompressed_frame\<close>: the result is the
  list of the frame's channels, \<open>channel_0\<close> and, in a frame of two, \<open>channel_1\<close>, and
  the reader. \<open>channels\<close> is 1 or 2 (\<open>decode_frameset\<close> checks it).\<close>

definition decode_compressed_frame ::
  "bits \<Rightarrow> alac_parameters \<Rightarrow> 32 word \<Rightarrow> 32 word \<Rightarrow> nat \<Rightarrow> 32 word
     \<Rightarrow> error + (32 word list list \<times> bits)" where
  "decode_compressed_frame br params uncompressed_LSBs bits_per_sample block_size channels =
     (let sample_size = bits_per_sample - uncompressed_LSBs * 8 + (channels - 1) in
      (case br_read 8 br of
         Inl e \<Rightarrow> Inl e
       | Inr (interlacing_shift, br1) \<Rightarrow>
      (case br_read 8 br1 of
         Inl e \<Rightarrow> Inl e
       | Inr (interlacing_leftweight, br2) \<Rightarrow>
      (case read_subframe_headers (unat channels) br2 of
         Inl e \<Rightarrow> Inl e
       | Inr (subframe_headers, br3) \<Rightarrow>
      (case (if uncompressed_LSBs \<noteq> 0
             then read_values (unat (uncompressed_LSBs * 8)) (block_size * unat channels) br3
             else Inr ([], br3)) of
         Inl e \<Rightarrow> Inl e
       | Inr (LSBs, br4) \<Rightarrow>
      (case decode_subframes params sample_size block_size subframe_headers br4 of
         Inl e \<Rightarrow> Inl e
       | Inr (subframe, br5) \<Rightarrow>
          let decorrelated =
                (if channels = 2 \<and> 0 < interlacing_leftweight
                 then (let lr = decorrelate_channels block_size interlacing_shift
                                  interlacing_leftweight (subframe ! 0) (subframe ! 1)
                       in [fst lr, snd lr])
                 else subframe);
              uncompressed_bits = unat (uncompressed_LSBs * 8)
          in
          Inr (if 0 < uncompressed_LSBs
               then map (\<lambda>c. map (\<lambda>i. push_bit uncompressed_bits (decorrelated ! c ! i) OR
                                       LSBs ! (i * unat channels + c))
                                 [0..<block_size])
                      [0..<unat channels]
               else decorrelated,
               br5)))))))"

definition decode_uncompressed_frame ::
  "bits \<Rightarrow> 32 word \<Rightarrow> nat \<Rightarrow> 32 word \<Rightarrow> error + (32 word list list \<times> bits)" where
  "decode_uncompressed_frame br bits_per_sample block_size channels =
     (case read_signed_values (unat bits_per_sample) (block_size * unat channels) br of
        Inl e \<Rightarrow> Inl e
      | Inr (vs, br1) \<Rightarrow>
         Inr (map (\<lambda>c. map (\<lambda>i. vs ! (i * unat channels + c)) [0..<block_size])
                [0..<unat channels],
              br1))"

text \<open>\<open>decode_frame\<close>: the result is \<open>*block_size\<close>, the channels and the reader.\<close>

definition decode_frame ::
  "bits \<Rightarrow> alac_parameters \<Rightarrow> 32 word \<Rightarrow> 32 word
     \<Rightarrow> error + (nat \<times> 32 word list list \<times> bits)" where
  "decode_frame br params bits_per_sample channels =
     (case br_skip 16 br of
        Inl e \<Rightarrow> Inl e
      | Inr br1 \<Rightarrow>
     (case br_read 1 br1 of
        Inl e \<Rightarrow> Inl e
      | Inr (has_sample_count, br2) \<Rightarrow>
     (case br_read 2 br2 of
        Inl e \<Rightarrow> Inl e
      | Inr (uncompressed_LSBs, br3) \<Rightarrow>
     (case br_read 1 br3 of
        Inl e \<Rightarrow> Inl e
      | Inr (not_uncompressed, br4) \<Rightarrow>
     (case (if has_sample_count = 0 then Inr (of_nat (p_block_size params), br4)
            else br_read 32 br4) of
        Inl e \<Rightarrow> Inl e
      | Inr (bsz, br5) \<Rightarrow>
         if has_sample_count \<noteq> 0 \<and> p_block_size params < unat bsz
         then Inl INVALID_BLOCK_SIZE
         else
           let block_size = (if has_sample_count = 0 then p_block_size params else unat bsz)
           in
           (case (if not_uncompressed = 0
                  then decode_compressed_frame br5 params uncompressed_LSBs bits_per_sample
                         block_size channels
                  else decode_uncompressed_frame br5 bits_per_sample block_size channels) of
              Inl e \<Rightarrow> Inl e
            | Inr (chs, br6) \<Rightarrow> Inr (block_size, chs, br6)))))))"

text \<open>
  \<open>decoders_ALACDecoder\<close>, as far as \<open>decode_frameset\<close> reads it, and the state of its
  loop \<open>while (channels != 8)\<close>: the reader, the count \<open>c\<close> of channels decoded, the
  block size of the first frame and the channels in the order \<open>put_channel_data\<close>
  stores them (channel \<open>c\<close> of the output is the \<open>c\<close>-th one stored).
\<close>

record alac_decoder =
  dec_params :: alac_parameters
  dec_bits_per_sample :: "32 word"
  dec_channels :: nat

record frameset_state =
  f_br :: bits
  f_c :: nat
  f_block_size :: nat
  f_samples :: "32 word list list"

definition decode_frameset_body ::
  "alac_decoder \<Rightarrow> 32 word \<Rightarrow> frameset_state \<Rightarrow> error + (32 word \<times> frameset_state)" where
  "decode_frameset_body self channels s =
     (if channels \<noteq> 1 \<and> channels \<noteq> 2 then Inl INVALID_FRAME_CHANNEL_COUNT
      else if dec_channels self < f_c s + unat channels then Inl EXCESSIVE_FRAME_CHANNEL_COUNT
      else
        (case decode_frame (f_br s) (dec_params self) (dec_bits_per_sample self) channels of
           Inl e \<Rightarrow> Inl e
         | Inr (frame_block_size, chs, br1) \<Rightarrow>
            if f_c s \<noteq> 0 \<and> f_block_size s \<noteq> frame_block_size
            then Inl FRAME_BLOCK_SIZE_MISMATCH
            else
              (case br_read 3 br1 of
                 Inl e \<Rightarrow> Inl e
               | Inr (next_channels, br2) \<Rightarrow>
                  Inr (next_channels + 1,
                       \<lparr>f_br = br2, f_c = f_c s + unat channels,
                        f_block_size = (if f_c s = 0 then frame_block_size
                                        else f_block_size s),
                        f_samples = f_samples s @ chs\<rparr>))))"

lemma decode_frameset_body_advances:
  "decode_frameset_body self channels s = Inr (channels1, s1) \<Longrightarrow>
   f_c s < f_c s1 \<and> f_c s1 \<le> dec_channels self"
  by (auto simp: decode_frameset_body_def unat_gt_0
           split: if_splits sum.splits prod.splits)

function decode_frameset_loop ::
  "alac_decoder \<Rightarrow> 32 word \<Rightarrow> frameset_state \<Rightarrow> error + (nat \<times> 32 word list list \<times> bits)"
  where
  "decode_frameset_loop self channels s =
     (if channels \<noteq> 8 then
        (case decode_frameset_body self channels s of
           Inl e \<Rightarrow> Inl e
         | Inr (channels1, s1) \<Rightarrow> decode_frameset_loop self channels1 s1)
      else Inr (f_block_size s, f_samples s, br_byte_align (f_br s)))"
  by pat_completeness auto
termination
proof (relation "measure (\<lambda>(self, channels, s). Suc (dec_channels self) - f_c s)", goal_cases)
  case 1
  show ?case by simp
next
  case (2 self channels s x2 channels1 s1)
  then have "decode_frameset_body self channels s = Inr (channels1, s1)" by simp
  from decode_frameset_body_advances [OF this]
  have "f_c s < f_c s1" "f_c s1 \<le> dec_channels self" by simp_all
  then have "Suc (dec_channels self) - f_c s1 < Suc (dec_channels self) - f_c s" by linarith
  then show ?case by simp
qed

text \<open>\<open>decode_frameset\<close>: the result is \<open>*pcm_frames_read\<close>, the channels stored in
  \<open>samples\<close> and the reader.\<close>

definition decode_frameset ::
  "alac_decoder \<Rightarrow> bits \<Rightarrow> error + (nat \<times> 32 word list list \<times> bits)" where
  "decode_frameset self br =
     (case br_read 3 br of
        Inl e \<Rightarrow> Inl e
      | Inr (channels, br1) \<Rightarrow>
         decode_frameset_loop self (channels + 1)
           \<lparr>f_br = br1, f_c = 0, f_block_size = p_block_size (dec_params self),
            f_samples = []\<rparr>)"

section \<open>Example inputs\<close>

text \<open>The encoder of the examples: the options of \<open>encode_alac\<close> with its defaults
  (initial history 10, history multiplier 40, maximum k 14, leftweights 0 to 4), 16
  bits per sample, blocks of 10 PCM frames. Its floating-point stage returns \<open>lp\<close> for
  every block.\<close>

definition example_options :: alac_options where
  "example_options =
     \<lparr>opt_block_size = 10, opt_initial_history = 10, opt_history_multiplier = 40,
      opt_maximum_k = 14, opt_minimum_interlacing_leftweight = 0,
      opt_maximum_interlacing_leftweight = 4\<rparr>"

definition example_encoder :: "(32 word list \<times> 32 word list) option \<Rightarrow> alac_context" where
  "example_encoder lp =
     \<lparr>enc_options = example_options, enc_bits_per_sample = 16,
      enc_quantized_lp = (\<lambda>samples. lp), enc_best_interlaced_frame = []\<rparr>"

definition example_mono :: "32 word list" where
  "example_mono = [1, 5, 2, 8, 3, 9, 4, 7, 5, 6]"

definition example_stereo :: "32 word list list" where
  "example_stereo = [[1, 5, 2, 8, 3, 9, 4, 7, 5, 6], [2, 4, 3, 7, 4, 8, 5, 6, 6, 5]]"

text \<open>Coefficients for the examples in which the floating-point stage returns some, and
  two frames whose first samples are outside the 16-bit range: in the stereo frame
  the difference of the first samples, 80000, does not fit 17 bits.\<close>

definition example_coefficients :: "32 word list \<times> 32 word list" where
  "example_coefficients = ([100, - 50, 20, 10], [100, - 50, 20, 10, 5, 4, 3, 2])"

definition example_overflow_mono :: "32 word list list" where
  "example_overflow_mono = [[40000, 0, 0, 0, 0, 0, 0, 0, 0, 0]]"

definition example_overflow_stereo :: "32 word list list" where
  "example_overflow_stereo =
     [[40000, 0, 0, 0, 0, 0, 0, 0, 0, 0], [- 40000, 0, 0, 0, 0, 0, 0, 0, 0, 0]]"

text \<open>The same encoder with the search cut down to the leftweights 0 to 2.\<close>

definition example_encoder_short_search :: alac_context where
  "example_encoder_short_search =
     (example_encoder None)
       \<lparr>enc_options := example_options\<lparr>opt_maximum_interlacing_leftweight := 2\<rparr>\<rparr>"

text \<open>The decoder of the examples, with the parameters the encoder of the examples
  announces: blocks of 10 PCM frames, history multiplier 40, initial history 10,
  maximum k 14, 16 bits per sample.\<close>

definition example_parameters :: alac_parameters where
  "example_parameters =
     \<lparr>p_block_size = 10, p_history_multiplier = 40, p_initial_history = 10,
      p_maximum_K = 14\<rparr>"

definition example_decoder :: "nat \<Rightarrow> alac_decoder" where
  "example_decoder channels =
     \<lparr>dec_params = example_parameters, dec_bits_per_sample = 16, dec_channels = channels\<rparr>"

text \<open>The invariant of the loop of \<open>read_residual_block\<close>, on the result of one pass: no
  store went out of bounds, the index is at most \<open>block_size\<close> and the array still
  has \<open>block_size\<close> slots.\<close>

definition in_bounds :: "nat \<Rightarrow> error + dec_state \<Rightarrow> bool" where
  "in_bounds block_size r =
     (case r of
        Inl e \<Rightarrow> e \<noteq> ArrayOutOfBounds
      | Inr s \<Rightarrow> d_i s \<le> block_size \<and> length (d_residual s) = block_size)"

section \<open>Properties of the residual coder\<close>

subsection \<open>Facts about 32-bit words and the bit stream\<close>

lemma mod_less_divisor_word: "(x :: 32 word) \<noteq> 0 \<Longrightarrow> y mod x < x"
  by (simp add: word_gt_0 word_mod_less_divisor)

lemma unat_exp_32: "n < 32 \<Longrightarrow> unat (2 ^ n :: 32 word) = 2 ^ n"
proof -
  assume "n < 32"
  then have "(0 :: 32 word) < 2 ^ n" by (simp add: word_gt_0)
  then have "uint (2 ^ n :: 32 word) = 2 ^ n" by (rule uint_2p)
  then show ?thesis by (simp add: unat_eq_nat_uint nat_power_eq)
qed

lemma take_bit_below_divisor:
  fixes x :: "32 word"
  assumes "x \<le> push_bit n 1 - 1"
  shows "take_bit n x = x"
proof (cases "n < 32")
  case True
  then have nz: "(2 :: 32 word) ^ n \<noteq> 0" by simp
  have "unat x \<le> unat ((2 :: 32 word) ^ n - 1)"
    using assms by (simp add: word_le_nat_alt push_bit_eq_mult)
  also have "\<dots> = 2 ^ n - 1" using nz True by (simp add: unat_minus_one unat_exp_32)
  finally have "unat x \<le> 2 ^ n - 1" .
  moreover have "0 < (2 :: nat) ^ n" by simp
  ultimately have "unat x < 2 ^ n" by linarith
  then have "unat x < unat ((2 :: 32 word) ^ n)" using True by (simp add: unat_exp_32)
  then have "x < 2 ^ n" by (simp add: word_less_nat_alt)
  then show ?thesis by (simp add: take_bit_eq_mask less_mask_eq)
next
  case False
  then show ?thesis by (simp add: take_bit_word_eq_self)
qed

lemma shift_out_and_back:
  "push_bit 1 (drop_bit 1 (x :: 32 word)) OR of_bool (bit x 0) = x"
proof (rule bit_eqI)
  fix n
  have p: "push_bit 1 (drop_bit 1 x) = 2 * drop_bit 1 x" by simp
  show "bit (push_bit 1 (drop_bit 1 x) OR of_bool (bit x 0)) n = bit x n"
  proof (cases n)
    case 0
    then show ?thesis unfolding p by (simp add: bit_or_iff bit_of_bool_iff bit_double_iff)
  next
    case (Suc m)
    then show ?thesis unfolding p
      by (auto simp add: bit_or_iff bit_of_bool_iff bit_double_iff bit_drop_bit_eq
            possible_bit_word dest: bit_imp_le_length)
  qed
qed

lemma drop_bit_1_nonzero: "(1 :: 32 word) < x \<Longrightarrow> drop_bit 1 x \<noteq> 0"
proof -
  assume "1 < x"
  then have "2 \<le> unat x" by (simp add: word_less_nat_alt)
  then have "0 < unat x div 2" by simp
  then have "unat (drop_bit 1 x) \<noteq> 0" by (simp add: drop_bit_eq_div unat_div)
  then show ?thesis by (auto simp: unat_eq_0)
qed

lemma small_word_facts:
  "(m :: 32 word) \<le> 8 \<Longrightarrow> of_nat (unat m) = m \<and> unat m \<le> 8 \<and> m \<noteq> - 1"
proof -
  assume "m \<le> 8"
  then have "unat m \<le> 8" by (simp add: word_le_nat_alt)
  moreover have "unat (- 1 :: 32 word) = 4294967295"
    by (simp add: unsigned_minus_1_eq_mask mask_eq_exp_minus_1)
  ultimately show ?thesis by auto
qed

lemma divisor_nonzero: "0 < (k :: 32 word) \<Longrightarrow> (push_bit (unat k) 1 - 1 :: 32 word) \<noteq> 0"
proof
  assume k: "0 < k" and d: "(push_bit (unat k) 1 - 1 :: 32 word) = 0"
  from d have "(2 :: 32 word) ^ unat k = 1" by (simp add: push_bit_eq_mult)
  then have "bit ((2 :: 32 word) ^ unat k) 0" by simp
  then have "unat k = 0" by (simp add: bit_exp_iff)
  with k show False by (simp add: unat_eq_0)
qed

lemma read_huffman_MSB_unary:
  "j + m \<le> 8 \<Longrightarrow>
   read_huffman_MSB j (replicate m True @ False # rest) = Inr (of_nat (j + m), rest)"
  by (induction m arbitrary: j) auto

lemma bits_value_bw_write: "bits_value (bw_write n x) = take_bit n x"
  by (simp add: bits_value_def bw_write_def rev_map horner_sum_bit_eq_take_bit)

lemma length_bw_write [simp]: "length (bw_write n x) = n"
  by (simp add: bw_write_def)

lemma bw_write_Suc: "bw_write (Suc n) x = bw_write n (drop_bit 1 x) @ [bit x 0]"
proof -
  have "[0..<Suc n] = 0 # map Suc [0..<n]"
    by (simp add: upt_conv_Cons map_Suc_upt del: upt_Suc)
  then have "rev [0..<Suc n] = map Suc (rev [0..<n]) @ [0]"
    by (simp add: rev_map del: upt_Suc)
  then show ?thesis
    by (simp add: bw_write_def bit_drop_bit_eq comp_def del: upt_Suc)
qed

lemma br_read_bw_write: "br_read n (bw_write n x @ rest) = Inr (take_bit n x, rest)"
  by (simp add: br_read_def bits_value_bw_write)

lemma br_read_1: "br_read 1 (b # rest) = Inr (of_bool b, rest)"
  by (simp add: br_read_def bits_value_def)

lemma read_tail_nonzero:
  assumes "0 < n" and "take_bit n x = x" and "(1 :: 32 word) < x"
  shows "\<exists>lsb br2. br_read (n - 1) (bw_write n x @ rest) = Inr (lsb, br2) \<and> lsb \<noteq> 0 \<and>
           br_read 1 br2 = Inr (of_bool (bit x 0), rest) \<and>
           push_bit 1 lsb OR of_bool (bit x 0) = x"
proof -
  obtain m where n: "n = Suc m" using assms(1) by (cases n) auto
  have w: "bw_write n x @ rest = bw_write m (drop_bit 1 x) @ bit x 0 # rest"
    by (simp add: n bw_write_Suc)
  have "take_bit m (drop_bit 1 x) = drop_bit 1 (take_bit n x)"
    by (simp add: n drop_bit_take_bit)
  then have tb: "take_bit m (drop_bit 1 x) = drop_bit 1 x"
    using assms(2) by simp
  have "br_read m (bw_write m (drop_bit 1 x) @ bit x 0 # rest) =
          Inr (take_bit m (drop_bit 1 x), bit x 0 # rest)"
    by (rule br_read_bw_write)
  then have "br_read (n - 1) (bw_write n x @ rest) = Inr (drop_bit 1 x, bit x 0 # rest)"
    unfolding w tb by (simp add: n)
  moreover have "drop_bit 1 x \<noteq> 0" using assms(3) by (rule drop_bit_1_nonzero)
  moreover have "br_read 1 (bit x 0 # rest) = Inr (of_bool (bit x 0), rest)"
    by (rule br_read_1)
  ultimately show ?thesis using shift_out_and_back [of x] by blast
qed

subsection \<open>C7: a value written without the escape is read back\<close>

text \<open>
  Claim C7, as the spec states it: for every unsigned value \<open>v\<close>, every parameter
  \<open>k \<ge> 1\<close> and every escape width \<open>W\<close>, if \<open>v / (2^k - 1) \<le> 8\<close> then \<open>read_residual\<close>
  on the bits of \<open>write_residual(v, k, W)\<close> returns \<open>v\<close>. This fails at \<open>k = 32\<close>: the
  quotient \<open>5 / (2^32 - 1)\<close> is 0, but \<open>write_residual\<close> shifts the \<open>int\<close> 1 by 32 to
  get its divisor, which has no defined result, and writes nothing that could be read
  back.
\<close>

theorem write_residual_shift_counterexample:
  "(1 :: 32 word) \<le> 32 \<and> (5 :: nat) div (2 ^ 32 - 1) \<le> 8 \<and>
   write_residual 5 32 16 = Inl UndefinedShift"
  by (simp add: write_residual_def)

text \<open>
  Claim C7, amended: for every unsigned value \<open>v\<close>, every parameter \<open>k\<close> from 1 to 31
  and every escape width \<open>W\<close>: when \<open>v / (2^k - 1) \<le> 8\<close>, \<open>write_residual(v, k, W)\<close>
  returns, and \<open>read_residual\<close> with the same \<open>k\<close> and \<open>W\<close>, on a stream that starts
  with the bits written, returns exactly \<open>v\<close> and leaves the reader right behind
  those bits.
\<close>

theorem write_residual_read_residual:
  assumes k: "0 < k" and k31: "k \<le> 31" and msb: "v div (push_bit (unat k) 1 - 1) \<le> 8"
  shows "\<exists>written. write_residual v k W = Inr written \<and>
           read_residual (written @ rest) k W = Inr (v, rest)"
proof -
  define d :: "32 word" where "d = push_bit (unat k) 1 - 1"
  define MSB where "MSB = v div d"
  define LSB where "LSB = v mod d"
  have d0: "d \<noteq> 0" unfolding d_def using k by (rule divisor_nonzero)
  have v: "MSB * d + LSB = v" unfolding MSB_def LSB_def by (fact div_mult_mod_eq)
  have m8: "MSB \<le> 8" using msb by (simp only: MSB_def d_def)
  then have m: "of_nat (unat MSB) = MSB" "unat MSB \<le> 8" "MSB \<noteq> - 1"
    using small_word_facts by blast+
  have k0: "k \<noteq> 0" using k by auto
  have "unat k \<le> 31" using k31 by (simp add: word_le_nat_alt)
  then have k32: "\<not> 32 \<le> unat k" by simp
  have n8: "\<not> 8 < MSB" using m8 by simp
  have huff: "read_huffman_MSB 0 (bw_write_unary False MSB @ tail) = Inr (MSB, tail)" for tail
    using read_huffman_MSB_unary [of 0 "unat MSB" tail] m by (simp add: bw_write_unary_def)
  consider (one) "\<not> 1 < k" | (zero) "1 < k" "\<not> 0 < LSB" | (pos) "1 < k" "0 < LSB" by blast
  then show ?thesis
  proof cases
    case one
    with k have k1: "k = 1" by (metis word_less_1 order_less_imp_not_eq linorder_less_linear)
    then have "d = 1" by (simp add: d_def)
    then have "v = MSB" by (simp add: MSB_def)
    then show ?thesis
      using huff [of rest] n8 m d0 k1 k32 \<open>d = 1\<close>
      by (simp add: write_residual_def read_residual_def Let_def d_def [symmetric]
            MSB_def [symmetric] br_read_def bits_value_def
            del: push_bit_of_Suc_0 push_bit_of_1)
  next
    case zero
    then have l0: "LSB = 0" by (simp add: word_gt_0)
    with v have vm: "MSB * d = v" by simp
    have "br_read (unat (k - 1)) (bw_write (unat (k - 1)) 0 @ rest) = Inr (0, rest)"
      using br_read_bw_write [of "unat (k - 1)" 0 rest] by simp
    then show ?thesis
      using huff [of "bw_write (unat (k - 1)) 0 @ rest"] n8 m d0 k0 k32 zero l0 vm
      by (simp add: write_residual_def read_residual_def Let_def d_def [symmetric]
            MSB_def [symmetric] LSB_def [symmetric] del: push_bit_of_Suc_0 push_bit_of_1)
  next
    case pos
    have "LSB < d" unfolding LSB_def using d0 by (rule mod_less_divisor_word)
    with pos have x: "1 < LSB + 1" "LSB + 1 \<le> d"
      by (metis (no_types, lifting) add_cancel_right_left inc_i inc_le
            order_le_imp_less_or_eq word_gt_0)+
    have un: "0 < unat k" using k by (simp add: word_less_nat_alt)
    have tb: "take_bit (unat k) (LSB + 1) = LSB + 1"
      using x(2) unfolding d_def by (rule take_bit_below_divisor)
    from read_tail_nonzero [OF un tb x(1), of rest]
    obtain lsb br2 where r:
      "br_read (unat k - 1) (bw_write (unat k) (LSB + 1) @ rest) = Inr (lsb, br2)"
      "lsb \<noteq> 0" "br_read 1 br2 = Inr (of_bool (bit (LSB + 1) 0), rest)"
      "push_bit 1 lsb OR of_bool (bit (LSB + 1) 0) = LSB + 1"
      by blast
    have uk: "unat (k - 1) = unat k - 1" using k0 by (simp add: unat_minus_one)
    show ?thesis
      using huff [of "bw_write (unat k) (LSB + 1) @ rest"] n8 m d0 k0 k32 pos r v uk
      by (simp add: write_residual_def read_residual_def Let_def d_def [symmetric]
            MSB_def [symmetric] LSB_def [symmetric] del: push_bit_of_Suc_0 push_bit_of_1)
  qed
qed

theorem write_residual_read_residual_witness:
  "(0 :: 32 word) < 4 \<and> (4 :: 32 word) \<le> 31 \<and> (100 :: 32 word) div (push_bit (unat (4 :: 32 word)) 1 - 1) \<le> 8 \<and>
   (\<exists>written. write_residual 100 4 16 = Inr written \<and>
      read_residual (written @ [True, False]) 4 16 = Inr (100, [True, False]))"
proof -
  have h1: "(0 :: 32 word) < 4" by simp
  have h3: "(4 :: 32 word) \<le> 31" by simp
  have h2: "(100 :: 32 word) div (push_bit (unat (4 :: 32 word)) 1 - 1) \<le> 8" by simp
  from write_residual_read_residual [OF h1 h3 h2, of 16 "[True, False]"] h1 h2 h3
  show ?thesis by blast
qed

subsection \<open>C10: the decoder's residual array is never written out of bounds\<close>

lemma read_huffman_MSB_error: "read_huffman_MSB n br = Inl e \<Longrightarrow> e = EndOfStream"
  by (induction n br rule: read_huffman_MSB.induct) (auto split: if_splits)

lemma br_read_error: "br_read n br = Inl e \<Longrightarrow> e = EndOfStream"
  by (auto simp: br_read_def split: if_splits)

lemma read_residual_error:
  "read_residual br k sample_size = Inl e \<Longrightarrow> e \<noteq> ArrayOutOfBounds"
  by (auto simp: read_residual_def split: sum.splits prod.splits if_splits
           dest: read_huffman_MSB_error br_read_error)

lemma store_zeroes_in_bounds:
  "i + n \<le> length residual \<Longrightarrow>
   \<exists>residual1. store_zeroes residual i n = Inr (residual1, i + n) \<and>
                length residual1 = length residual"
proof (induction n arbitrary: residual i)
  case 0
  then show ?case by simp
next
  case (Suc n)
  from Suc.prems have "Suc i + n \<le> length (residual[i := 0])" by simp
  from Suc.IH [OF this] Suc.prems show ?case by (auto simp: array_store_def)
qed

lemma read_zero_run_in_bounds:
  assumes "i \<le> block_size" and "length residual = block_size"
  shows "in_bounds block_size (read_zero_run params block_size br history i residual)"
proof (cases "LOG2_decoder history")
  case None
  then show ?thesis by (simp add: read_zero_run_def in_bounds_def)
next
  case (Some l)
  show ?thesis
  proof (cases "read_residual br
                  (min (7 - l + c_sdiv (history + 16) 64) (p_maximum_K params)) 16")
    case (Inl e)
    then have "e \<noteq> ArrayOutOfBounds" by (rule read_residual_error)
    with Some Inl show ?thesis by (simp add: read_zero_run_def in_bounds_def)
  next
    case (Inr zb)
    obtain z br1 where zb: "zb = (z, br1)" by (cases zb)
    define n where "n = (if 0 < z then min (unat z) (block_size - i) else unat z)"
    have le: "i + n \<le> length residual"
      using assms by (auto simp: n_def word_gt_0 min_def)
    then obtain residual1 where
      "store_zeroes residual i n = Inr (residual1, i + n)" "length residual1 = length residual"
      using store_zeroes_in_bounds by blast
    moreover have "i + n \<le> block_size"
      using le assms by simp
    ultimately show ?thesis
      using Some Inr zb assms
      by (simp add: read_zero_run_def in_bounds_def Let_def n_def [symmetric])
  qed
qed

lemma read_residual_block_body_in_bounds:
  assumes "d_i s < block_size" and "length (d_residual s) = block_size"
  shows "in_bounds block_size (read_residual_block_body params sample_size block_size s)"
proof (cases "LOG2_decoder (signed_drop_bit 9 (d_history s) + 3)")
  case None
  then show ?thesis by (simp add: read_residual_block_body_def in_bounds_def)
next
  case (Some k)
  show ?thesis
  proof (cases "read_residual (d_br s) (min k (p_maximum_K params)) sample_size")
    case (Inl e)
    then have "e \<noteq> ArrayOutOfBounds" by (rule read_residual_error)
    with Some Inl show ?thesis by (simp add: read_residual_block_body_def in_bounds_def)
  next
    case (Inr vb)
    obtain v br1 where vb: "vb = (v, br1)" by (cases vb)
    have zr: "in_bounds block_size
                (read_zero_run params block_size br1 h (Suc (d_i s))
                   ((d_residual s)[d_i s := r]))"
      for h r
      using assms by (intro read_zero_run_in_bounds) simp_all
    show ?thesis
      using Some Inr vb assms zr
      by (simp add: read_residual_block_body_def Let_def array_store_def)
         (simp add: in_bounds_def)
  qed
qed

lemma read_residual_block_loop_in_bounds:
  assumes "d_i s \<le> block_size" and "length (d_residual s) = block_size"
  shows "read_residual_block_loop params sample_size block_size s \<noteq> Inl ArrayOutOfBounds \<and>
         (\<forall>residual br.
            read_residual_block_loop params sample_size block_size s = Inr (residual, br)
            \<longrightarrow> length residual = block_size)"
  using assms
proof (induction params sample_size block_size s rule: read_residual_block_loop.induct)
  case (1 params sample_size block_size s)
  show ?case
  proof (cases "d_i s < block_size")
    case False
    with "1.prems" show ?thesis
      by (subst read_residual_block_loop.simps, subst read_residual_block_loop.simps) simp
  next
    case True
    have b: "in_bounds block_size (read_residual_block_body params sample_size block_size s)"
      using True "1.prems" by (intro read_residual_block_body_in_bounds)
    show ?thesis
    proof (cases "read_residual_block_body params sample_size block_size s")
      case (Inl e)
      with b True show ?thesis
        by (subst read_residual_block_loop.simps, subst read_residual_block_loop.simps)
           (simp add: in_bounds_def)
    next
      case (Inr s')
      with b have "d_i s' \<le> block_size" "length (d_residual s') = block_size"
        by (simp_all add: in_bounds_def)
      with "1.IH" [OF True Inr] have
        "read_residual_block_loop params sample_size block_size s' \<noteq> Inl ArrayOutOfBounds \<and>
         (\<forall>residual br.
            read_residual_block_loop params sample_size block_size s' = Inr (residual, br)
            \<longrightarrow> length residual = block_size)"
        by simp
      with True Inr show ?thesis
        by (subst read_residual_block_loop.simps, subst read_residual_block_loop.simps) simp
    qed
  qed
qed

text \<open>
  Claim C10. For every input bit stream and every \<open>block_size\<close>, \<open>read_residual_block\<close>,
  given the caller's array of \<open>block_size\<close> slots, never stores past the end of the
  array, whatever run length the stream encodes (the zero-run length is clamped to
  \<open>block_size - i\<close> before the fill); when it returns, the array still has exactly
  \<open>block_size\<close> residuals.
\<close>

theorem read_residual_block_in_bounds:
  assumes "length residual = block_size"
  shows "read_residual_block br params sample_size block_size residual \<noteq> Inl ArrayOutOfBounds \<and>
         (\<forall>residual1 br1.
            read_residual_block br params sample_size block_size residual = Inr (residual1, br1)
            \<longrightarrow> length residual1 = block_size)"
  unfolding read_residual_block_def
  using assms by (intro read_residual_block_loop_in_bounds) simp_all

theorem read_residual_block_in_bounds_witness:
  "length (replicate 4 (0 :: 32 word)) = 4 \<and>
   read_residual_block
     [False, False, True, True, True, True, True, True, True, True, True, True, True]
     \<lparr>p_block_size = 4, p_history_multiplier = 40, p_initial_history = 10,
      p_maximum_K = 14\<rparr>
     16 4 (replicate 4 0) \<noteq> Inl ArrayOutOfBounds"
  using read_residual_block_in_bounds
    [of "replicate 4 0" 4
        "[False, False, True, True, True, True, True, True, True, True, True, True, True]"
        "\<lparr>p_block_size = 4, p_history_multiplier = 40, p_initial_history = 10,
          p_maximum_K = 14\<rparr>" 16]
  by simp

section \<open>Properties of the predictor and the decorrelator\<close>

subsection \<open>C8: decorrelation undoes correlation\<close>

text \<open>
  Claim C8. For every pair of integer channels \<open>s0\<close>, \<open>s1\<close> of equal length, every
  shift and every leftweight greater than 0, \<open>correlate_channels\<close> returns two
  channels from which \<open>decorrelate_channels\<close>, with the same shift and leftweight,
  returns exactly \<open>(s0, s1)\<close> as \<open>(left, right)\<close>; and with leftweight 0
  \<open>correlate_channels\<close> passes both channels through unchanged. Both sides shift the
  same 64-bit product by the same count, so the identity does not depend on what that
  shift yields.
\<close>

theorem correlate_decorrelate:
  assumes len: "length s0 = length s1"
  shows "(0 < leftweight \<longrightarrow>
           (\<exists>c0 c1. correlate_channels [s0, s1] shift leftweight = Inr [c0, c1] \<and>
              decorrelate_channels (length s0) shift leftweight c0 c1 = (s0, s1))) \<and>
         correlate_channels [s0, s1] shift 0 = Inr [s0, s1]"
proof (intro conjI impI)
  show "correlate_channels [s0, s1] shift 0 = Inr [s0, s1]"
    using len by (simp add: correlate_channels_def)
next
  assume lw: "0 < leftweight"
  define c0 where "c0 = map (\<lambda>i. s1 ! i +
                        ucast (signed_drop_bit (unat shift)
                                 ((scast (s0 ! i - s1 ! i) :: 64 word) * ucast leftweight)))
                 [0..<length s0]"
  define c1 where "c1 = map (\<lambda>i. s0 ! i - s1 ! i) [0..<length s0]"
  have enc: "correlate_channels [s0, s1] shift leftweight = Inr [c0, c1]"
    using len lw by (simp add: correlate_channels_def c0_def c1_def Let_def)
  have right: "map (\<lambda>i. c0 ! i -
                            ucast (signed_drop_bit (unat shift)
                                     ((scast (c1 ! i) :: 64 word) * ucast leftweight)))
                    [0..<length s0] = s1"
    using len by (intro nth_equalityI) (simp_all add: c0_def c1_def)
  have left: "map (\<lambda>i. c1 ! i + s1 ! i) [0..<length s0] = s0"
    by (intro nth_equalityI) (simp_all add: c1_def)
  have "decorrelate_channels (length s0) shift leftweight c0 c1 = (s0, s1)"
    unfolding decorrelate_channels_def Let_def right using left by simp
  with enc show "\<exists>c0 c1. correlate_channels [s0, s1] shift leftweight = Inr [c0, c1] \<and>
              decorrelate_channels (length s0) shift leftweight c0 c1 = (s0, s1)"
    by blast
qed

theorem correlate_decorrelate_witness:
  "length [5, - 3 :: 32 word] = length [7, 100 :: 32 word] \<and> (0 :: 32 word) < 3 \<and>
   (\<exists>c0 c1. correlate_channels [[5, - 3], [7, 100]] 2 3 = Inr [c0, c1] \<and>
      decorrelate_channels (length [5, - 3 :: 32 word]) 2 3 c0 c1 = ([5, - 3], [7, 100])) \<and>
   correlate_channels [[5, - 3], [7, 100]] 2 0 = Inr [[5, - 3], [7, 100]]"
proof -
  have h: "length [5, - 3 :: 32 word] = length [7, 100 :: 32 word]" by simp
  have p: "(0 :: 32 word) < 3" by simp
  from correlate_decorrelate [OF h, of 3 2] h p show ?thesis by blast
qed

subsection \<open>C3: the range of a truncated residual\<close>

lemma TRUNCATE_BITS_wide:
  assumes "32 \<le> unat n"
  shows "TRUNCATE_BITS r n = r"
proof -
  have "push_bit (unat n) (1 :: 32 word) = 0"
    using assms by (simp add: push_bit_eq_mult)
  then show ?thesis by (simp add: TRUNCATE_BITS_def Let_def del: push_bit_of_1)
qed

lemma TRUNCATE_BITS_narrow:
  assumes m: "0 < unat n" "unat n < 32"
  shows "TRUNCATE_BITS r n =
           word_of_int (take_bit (unat n - 1) (uint r)
                        - 2 ^ (unat n - 1) * of_bool (bit (uint r) (unat n - 1)))"
proof -
  define m where "m = unat n - 1"
  define k where "k = uint r"
  have un: "unat n = Suc m" using m by (simp add: m_def)
  have m32: "m < 32" using m un by simp
  have n0: "n \<noteq> 0" using m by (auto simp: unat_eq_0)
  have un1: "unat (n - 1) = m" using n0 by (simp add: unat_minus_one m_def)
  have mask: "push_bit (unat n) 1 - 1 = (mask (Suc m) :: 32 word)"
    by (simp add: un mask_eq_exp_minus_1)
  have tr: "r AND (push_bit (unat n) 1 - 1) = word_of_int (take_bit (Suc m) k)"
    unfolding mask k_def by (rule and_mask_bintr)
  have tr': "r AND (push_bit (unat n) 1 - 1) = take_bit (Suc m) r"
    unfolding mask by (simp add: take_bit_eq_mask)
  have "(take_bit (Suc m) r AND push_bit m 1 \<noteq> 0) = bit (take_bit (Suc m) r) m"
    by (rule bit_iff_and_push_bit_not_eq_0 [symmetric])
  also have "\<dots> = bit k m"
    using m32 by (simp add: bit_take_bit_iff bit_uint_iff k_def)
  finally have test: "(take_bit (Suc m) r AND push_bit m 1 \<noteq> 0) = bit k m" .
  have split: "take_bit (Suc m) k = 2 ^ m * of_bool (bit k m) + take_bit m k"
    by (rule take_bit_Suc_from_most)
  have p: "push_bit (Suc m) (1 :: 32 word) = word_of_int (2 ^ Suc m)"
    by (simp add: push_bit_eq_mult)
  show ?thesis
  proof (cases "bit k m")
    case True
    have "TRUNCATE_BITS r n = word_of_int (take_bit (Suc m) k) - push_bit (Suc m) 1"
      unfolding TRUNCATE_BITS_def Let_def un1 using True test tr tr'
      by (simp add: un del: push_bit_of_1 push_bit_Suc)
    also have "\<dots> = word_of_int (take_bit (Suc m) k - 2 ^ Suc m)"
      unfolding p by (simp only: wi_hom_sub)
    also have "take_bit (Suc m) k - 2 ^ Suc m = take_bit m k - 2 ^ m * of_bool (bit k m)"
      unfolding split using True by simp
    finally show ?thesis unfolding m_def [symmetric] k_def [symmetric] .
  next
    case False
    have "TRUNCATE_BITS r n = word_of_int (take_bit (Suc m) k)"
      unfolding TRUNCATE_BITS_def Let_def un1 using False test tr tr'
      by (simp add: un del: push_bit_of_1 push_bit_Suc)
    also have "take_bit (Suc m) k = take_bit m k - 2 ^ m * of_bool (bit k m)"
      unfolding split using False by simp
    finally show ?thesis unfolding m_def [symmetric] k_def [symmetric] .
  qed
qed

lemma TRUNCATE_BITS_range:
  assumes "1 \<le> n"
  shows "- (2 ^ (unat n - 1)) \<le> sint (TRUNCATE_BITS r n) \<and>
         sint (TRUNCATE_BITS r n) < 2 ^ (unat n - 1)"
proof (cases "unat n < 32")
  case False
  then have "TRUNCATE_BITS r n = r" by (simp add: TRUNCATE_BITS_wide)
  moreover have "(2 :: int) ^ 31 \<le> 2 ^ (unat n - 1)"
    using False by (intro power_increasing) simp_all
  moreover have "- (2 ^ 31) \<le> sint r" "sint r < 2 ^ 31"
    using sint_ge [of r] sint_lt [of r] by simp_all
  ultimately show ?thesis by simp
next
  case True
  have pos: "0 < unat n" using assms by (simp add: word_le_nat_alt)
  define m where "m = unat n - 1"
  define x where "x = take_bit m (uint r) - 2 ^ m * of_bool (bit (uint r) m)"
  have tb: "0 \<le> take_bit m (uint r)" "take_bit m (uint r) < 2 ^ m"
    by simp_all
  have p0: "(0 :: int) < 2 ^ m" by simp
  have x: "- (2 ^ m) \<le> x \<and> x < 2 ^ m"
  proof (cases "bit (uint r) m")
    case True
    then have "x = take_bit m (uint r) - 2 ^ m" by (simp add: x_def)
    with tb p0 show ?thesis by linarith
  next
    case False
    then have "x = take_bit m (uint r)" by (simp add: x_def)
    with tb p0 show ?thesis by linarith
  qed
  have "m < 31" using True pos by (simp add: m_def)
  then have "(2 :: int) ^ m \<le> 2 ^ 31" by (intro power_increasing) simp_all
  with x have "- (2 ^ 31) \<le> x" "x < 2 ^ 31" by linarith+
  then have "signed_take_bit 31 x = x" by (intro signed_take_bit_int_eq_self) simp_all
  then have "sint (word_of_int x :: 32 word) = x" by (simp add: sint_sbintrunc')
  moreover have "TRUNCATE_BITS r n = word_of_int x"
    unfolding x_def m_def using pos True by (rule TRUNCATE_BITS_narrow)
  ultimately show ?thesis using x by (simp add: m_def)
qed

text \<open>
  Claim C3, as the spec states it: for every residual \<open>r\<close> that \<open>calculate_residuals\<close>
  emits and every \<open>n \<ge> 1\<close>, \<open>|TRUNCATE_BITS(r, n)| < 2^(n-1)\<close>. This fails: the block
  \<open>0, -32768, 0, ...\<close> at 16 bits has the first difference \<open>-32768\<close>, which is its own
  truncation to 16 bits, and its absolute value is \<open>2^15\<close>.
\<close>

theorem calculate_residuals_abs_bound_counterexample:
  "calculate_residuals 16 10 [0, - 32768, 0, 0, 0, 0, 0, 0, 0, 0] 4 [0, 0, 0, 0] =
     Inr [0, - 32768, - 32768, 0, 0, 0, - 32768, 0, 0, 0] \<and>
   \<not> \<bar>sint (TRUNCATE_BITS (- 32768) 16)\<bar> < 2 ^ (16 - 1)"
  by code_simp

text \<open>
  Claim C3, amended: for every residual \<open>r\<close> that \<open>calculate_residuals\<close> emits and every
  \<open>n \<ge> 1\<close>, the truncated value is in the two's complement range of \<open>n\<close> bits,
  \<open>-2^(n-1) \<le> TRUNCATE_BITS(r, n) < 2^(n-1)\<close>. From \<open>n = 32\<close> on the mask covers the
  whole \<open>int\<close> and the value comes back unchanged.
\<close>

theorem calculate_residuals_truncated_range:
  assumes "calculate_residuals sample_size sample_count samples order qlp_coefficients
             = Inr residuals"
      and "r \<in> set residuals"
      and "1 \<le> n"
  shows "- (2 ^ (unat n - 1)) \<le> sint (TRUNCATE_BITS r n) \<and>
         sint (TRUNCATE_BITS r n) < 2 ^ (unat n - 1)"
  using assms(3) by (rule TRUNCATE_BITS_range)

theorem calculate_residuals_truncated_range_witness:
  "calculate_residuals 16 10 [0, - 32768, 0, 0, 0, 0, 0, 0, 0, 0] 4 [0, 0, 0, 0] =
     Inr [0, - 32768, - 32768, 0, 0, 0, - 32768, 0, 0, 0] \<and>
   (- 32768 :: 32 word) \<in> set [0, - 32768, - 32768, 0, 0, 0, - 32768, 0, 0, 0] \<and>
   (1 :: 32 word) \<le> 16 \<and>
   - (2 ^ (unat (16 :: 32 word) - 1)) \<le> sint (TRUNCATE_BITS (- 32768) 16) \<and>
   sint (TRUNCATE_BITS (- 32768) 16) < 2 ^ (unat (16 :: 32 word) - 1)"
proof -
  have h1: "calculate_residuals 16 10 [0, - 32768, 0, 0, 0, 0, 0, 0, 0, 0] 4 [0, 0, 0, 0] =
              Inr [0, - 32768, - 32768, 0, 0, 0, - 32768, 0, 0, 0]"
    by code_simp
  have h2: "(- 32768 :: 32 word) \<in> set [0, - 32768, - 32768, 0, 0, 0, - 32768, 0, 0, 0]"
    by simp
  have h3: "(1 :: 32 word) \<le> 16" by simp
  from calculate_residuals_truncated_range [OF h1 h2 h3] h1 h2 h3 show ?thesis by blast
qed

section \<open>Properties of the frame writers\<close>

lemma map_sum_length_Inr:
  "map_sum id length r = Inr n \<Longrightarrow> \<exists>b. r = Inr b \<and> length b = n"
  by (cases r) auto

text \<open>The list of the leftweights the search visits has exactly the leftweights of
  the range, in increasing order.\<close>

lemma unat_of_nat_small: "n \<le> unat (mx :: 32 word) \<Longrightarrow> unat (of_nat n :: 32 word) = n"
proof -
  assume "n \<le> unat mx"
  moreover have "unat mx < 2 ^ 32" using unsigned_less [of mx] by simp
  ultimately have "n < 2 ^ 32" by linarith
  then show ?thesis by (simp add: unat_of_nat take_bit_nat_eq_self)
qed

lemma set_leftweights: "(lw \<in> set (leftweights mn mx)) = (mn \<le> lw \<and> lw \<le> mx)"
proof
  assume "lw \<in> set (leftweights mn mx)"
  then obtain n where n: "unat mn \<le> n" "n \<le> unat mx" "lw = of_nat n"
    by (auto simp: leftweights_def simp del: upt_Suc)
  then have "unat lw = n" using unat_of_nat_small by blast
  with n show "mn \<le> lw \<and> lw \<le> mx" by (simp add: word_le_nat_alt)
next
  assume "mn \<le> lw \<and> lw \<le> mx"
  then have "unat mn \<le> unat lw" "unat lw \<le> unat mx" by (simp_all add: word_le_nat_alt)
  then have "unat lw \<in> set [unat mn..<unat mx + 1]" by (simp del: upt_Suc)
  then have "of_nat (unat lw) \<in> of_nat ` set [unat mn..<unat mx + 1]" by (rule imageI)
  then have "of_nat (unat lw) \<in> set (leftweights mn mx)"
    unfolding leftweights_def by (simp only: set_map)
  then show "lw \<in> set (leftweights mn mx)" by simp
qed

lemma sorted_leftweights: "sorted_wrt (<) (leftweights mn mx)"
proof -
  have "sorted_wrt (\<lambda>a b. (of_nat a :: 32 word) < of_nat b) [unat mn..<unat mx + 1]"
  proof (rule sorted_wrt_mono_rel [of _ "(<)"])
    fix a b
    assume "a \<in> set [unat mn..<unat mx + 1]" "b \<in> set [unat mn..<unat mx + 1]" "a < b"
    then have "a \<le> unat mx" "b \<le> unat mx" "a < b" by (simp_all del: upt_Suc)
    then have "unat (of_nat a :: 32 word) = a" "unat (of_nat b :: 32 word) = b"
      using unat_of_nat_small by blast+
    with \<open>a < b\<close> show "(of_nat a :: 32 word) < of_nat b" by (simp add: word_less_nat_alt)
  qed (simp del: upt_Suc)
  then show ?thesis by (simp add: leftweights_def sorted_wrt_map del: upt_Suc)
qed

lemma sorted_split:
  assumes "sorted_wrt (<) (pre @ (x :: 32 word) # post)"
  shows "(\<forall>y\<in>set pre. y < x) \<and> (\<forall>y\<in>set post. x < y)"
  using assms by (simp add: sorted_wrt_append)

subsection \<open>C4: a residual overflow falls back to an uncompressed frame\<close>

lemma LOG2_no_overflow: "LOG2 v \<noteq> Inl ResidualOverflow"
  by (simp add: LOG2_def)

lemma write_residual_no_overflow: "write_residual v k w \<noteq> Inl ResidualOverflow"
  by (simp add: write_residual_def Let_def)

lemma encode_zero_run_no_overflow:
  "encode_zero_run opts residual_count residuals history i out \<noteq> Inl ResidualOverflow"
proof (cases "LOG2 history")
  case (Inl e)
  with LOG2_no_overflow [of history] show ?thesis by (simp add: encode_zero_run_def)
next
  case (Inr l)
  show ?thesis
  proof (cases "write_residual (of_nat (fst (count_zeroes residual_count residuals 0 i)))
                  (min (7 - l + signed_drop_bit 6 (history + 16)) (opt_maximum_k opts)) 16")
    case (Inl e)
    with write_residual_no_overflow Inr show ?thesis
      by (auto simp add: encode_zero_run_def Let_def)
  next
    case (Inr w)
    with \<open>LOG2 history = Inr l\<close> show ?thesis by (simp add: encode_zero_run_def Let_def)
  qed
qed

text \<open>One pass of the loop of \<open>encode_residuals\<close> raises the residual overflow exactly
  when the folded residual is \<open>2^sample_size\<close> or more.\<close>

lemma residual_overflow_iff:
  "(encode_residuals_body opts sample_size residual_count residuals s = Inl ResidualOverflow) =
   (push_bit (unat sample_size) 1 \<le> fold_residual (residuals ! e_i s))"
proof (cases "push_bit (unat sample_size) 1 \<le> fold_residual (residuals ! e_i s)")
  case True
  then show ?thesis by (simp add: encode_residuals_body_def Let_def del: push_bit_of_1)
next
  case False
  have "encode_residuals_body opts sample_size residual_count residuals s \<noteq> Inl ResidualOverflow"
  proof (cases "LOG2 (signed_drop_bit 9 (e_history s) + 3)")
    case (Inl e)
    with LOG2_no_overflow [of "signed_drop_bit 9 (e_history s) + 3"] False show ?thesis
      by (simp add: encode_residuals_body_def Let_def del: push_bit_of_1)
  next
    case (Inr k)
    show ?thesis
    proof (cases "write_residual (fold_residual (residuals ! e_i s) - e_sign_modifier s)
                    (min k (opt_maximum_k opts)) sample_size")
      case (Inl e)
      with write_residual_no_overflow Inr False show ?thesis
        by (auto simp add: encode_residuals_body_def Let_def simp del: push_bit_of_1)
    next
      case (Inr w)
      with \<open>LOG2 (signed_drop_bit 9 (e_history s) + 3) = Inr k\<close> False encode_zero_run_no_overflow
      show ?thesis by (simp add: encode_residuals_body_def Let_def del: push_bit_of_1)
    qed
  qed
  with False show ?thesis by simp
qed

lemma encode_residuals_first_overflow:
  assumes "0 < residual_count"
      and "push_bit (unat sample_size) 1 \<le> fold_residual (residuals ! 0)"
  shows "encode_residuals opts sample_size residual_count residuals = Inl ResidualOverflow"
proof -
  let ?s = "\<lparr>e_history = opt_initial_history opts, e_sign_modifier = 0, e_i = 0, e_out = []\<rparr>"
  have "encode_residuals_body opts sample_size residual_count residuals ?s
          = Inl ResidualOverflow"
    using assms(2) by (simp add: residual_overflow_iff)
  then show ?thesis
    unfolding encode_residuals_def using assms(1)
    by (subst encode_residuals_loop.simps) simp
qed

text \<open>\<open>calculate_residuals\<close> copies the first sample and truncates every other residual
  to \<open>sample_size\<close> bits.\<close>

lemma calculate_residuals_body_shape:
  assumes "snd st \<noteq> []"
      and "\<forall>r\<in>set (tl (snd st)). \<exists>x. r = TRUNCATE_BITS x sample_size"
  shows "snd (calculate_residuals_body sample_size samples order i st) \<noteq> [] \<and>
         hd (snd (calculate_residuals_body sample_size samples order i st)) = hd (snd st) \<and>
         (\<forall>r\<in>set (tl (snd (calculate_residuals_body sample_size samples order i st))).
            \<exists>x. r = TRUNCATE_BITS x sample_size)"
  using assms by (auto simp add: calculate_residuals_body_def Let_def)

lemma calculate_residuals_fold_shape:
  assumes "snd st \<noteq> []"
      and "\<forall>r\<in>set (tl (snd st)). \<exists>x. r = TRUNCATE_BITS x sample_size"
  shows "snd (fold (calculate_residuals_body sample_size samples order) indices st) \<noteq> [] \<and>
         hd (snd (fold (calculate_residuals_body sample_size samples order) indices st))
           = hd (snd st) \<and>
         (\<forall>r\<in>set (tl (snd (fold (calculate_residuals_body sample_size samples order)
                              indices st))).
            \<exists>x. r = TRUNCATE_BITS x sample_size)"
  using assms
proof (induction indices arbitrary: st)
  case Nil
  then show ?case by simp
next
  case (Cons i indices)
  from calculate_residuals_body_shape [OF Cons.prems, of samples order i]
  have b: "snd (calculate_residuals_body sample_size samples order i st) \<noteq> []"
      "hd (snd (calculate_residuals_body sample_size samples order i st)) = hd (snd st)"
      "\<forall>r\<in>set (tl (snd (calculate_residuals_body sample_size samples order i st))).
         \<exists>x. r = TRUNCATE_BITS x sample_size"
    by simp_all
  from Cons.IH [OF b(1) b(3)] b(2) show ?case by simp
qed

lemma calculate_residuals_shape:
  assumes "calculate_residuals sample_size sample_count samples order qlp_coefficients
             = Inr residuals"
  shows "residuals \<noteq> [] \<and> residuals ! 0 = samples ! 0 \<and>
         (\<forall>r\<in>set (tl residuals). \<exists>x. r = TRUNCATE_BITS x sample_size)"
proof (cases "order < 31")
  case True
  let ?init = "(take order qlp_coefficients,
                samples ! 0 #
                map (\<lambda>i. TRUNCATE_BITS (samples ! i - samples ! (i - 1)) sample_size)
                  [1..<order + 1])"
  have r: "residuals = snd (fold (calculate_residuals_body sample_size samples order)
                              [order + 1..<sample_count] ?init)"
    using assms True by (simp add: calculate_residuals_def split: if_splits)
  have "snd ?init \<noteq> []" by simp
  moreover have "\<forall>r\<in>set (tl (snd ?init)). \<exists>x. r = TRUNCATE_BITS x sample_size"
    by auto
  ultimately have "residuals \<noteq> [] \<and> hd residuals = hd (snd ?init) \<and>
                   (\<forall>r\<in>set (tl residuals). \<exists>x. r = TRUNCATE_BITS x sample_size)"
    unfolding r by (rule calculate_residuals_fold_shape)
  then show ?thesis by (cases residuals) simp_all
next
  case False
  then have "residuals = samples ! 0 #
               map (\<lambda>i. TRUNCATE_BITS (samples ! i - samples ! (i - 1)) sample_size)
                 [1..<sample_count]"
    using assms by (simp add: calculate_residuals_def split: if_splits)
  then show ?thesis by auto
qed

lemma calculate_residuals_returns:
  assumes "order + 1 \<le> sample_count" and "sample_count \<le> length samples"
      and "order \<le> length qlp_coefficients"
  shows "\<exists>residuals. calculate_residuals sample_size sample_count samples order
                        qlp_coefficients = Inr residuals"
  using assms by (simp add: calculate_residuals_def)

text \<open>Where \<open>compute_coefficients\<close> gets at least 9 samples whose first one folds to
  \<open>2^sample_size\<close> or more, its first call of \<open>encode_residuals\<close> raises the overflow:
  the calls of \<open>calculate_residuals\<close> before it return. The floating-point stage
  delivers 4 and 8 coefficients.\<close>

lemma compute_coefficients_overflow:
  assumes lp: "\<forall>windowed q4 q8. enc_quantized_lp encoder windowed = Some (q4, q8) \<longrightarrow>
                  4 \<le> length q4 \<and> 8 \<le> length q8"
      and n: "9 \<le> sample_count" "sample_count \<le> length samples"
      and big: "push_bit (unat sample_size) 1 \<le> fold_residual (samples ! 0)"
  shows "compute_coefficients encoder sample_count samples sample_size = Inl ResidualOverflow"
proof (cases "enc_quantized_lp encoder (take sample_count samples)")
  case None
  obtain r4 where r4: "calculate_residuals sample_size sample_count samples 4 [0, 0, 0, 0]
                         = Inr r4"
    using calculate_residuals_returns [of 4 sample_count samples "[0, 0, 0, 0]"] n by auto
  then have "r4 ! 0 = samples ! 0" using calculate_residuals_shape by blast
  then have "encode_residuals (enc_options encoder) sample_size sample_count r4
               = Inl ResidualOverflow"
    using n big by (intro encode_residuals_first_overflow) simp_all
  with None r4 show ?thesis by (simp add: compute_coefficients_def)
next
  case (Some q)
  obtain q4 q8 where q: "q = (q4, q8)" by (cases q)
  with Some lp have len: "4 \<le> length q4" "8 \<le> length q8" by blast+
  obtain r4 where r4: "calculate_residuals sample_size sample_count samples 4 q4 = Inr r4"
    using calculate_residuals_returns [of 4 sample_count samples q4] n len by auto
  obtain r8 where r8: "calculate_residuals sample_size sample_count samples 8 q8 = Inr r8"
    using calculate_residuals_returns [of 8 sample_count samples q8] n len by auto
  from r4 have "r4 ! 0 = samples ! 0" using calculate_residuals_shape by blast
  then have "encode_residuals (enc_options encoder) sample_size sample_count r4
               = Inl ResidualOverflow"
    using n big by (intro encode_residuals_first_overflow) simp_all
  with Some q r4 r8 show ?thesis by (simp add: compute_coefficients_def)
qed

lemma extract_LSBs_shape:
  assumes "extract_LSBs encoder channels = (uncompressed_LSBs, LSBs, channels_MSB)"
      and "\<forall>ch\<in>set channels. length ch = length (channels ! 0)"
  shows "length channels_MSB = length channels \<and>
         (\<forall>c < length channels. length (channels_MSB ! c) = length (channels ! 0))"
  using assms by (auto simp add: extract_LSBs_def Let_def split: if_splits)

lemma correlate_channels_shape:
  assumes "correlate_channels channels shift leftweight = Inr correlated"
  shows "length correlated = 2 \<and> length (correlated ! 0) = length (channels ! 0) \<and>
         length (correlated ! 1) = length (channels ! 0)"
  using assms by (auto simp add: correlate_channels_def Let_def split: if_splits)

text \<open>The search stops at the first candidate that does not return.\<close>

lemma interlacing_search_stops:
  assumes "candidate lw = Inl e"
      and "\<forall>lw'\<in>set pre. \<exists>b. candidate lw' = Inr b"
  shows "interlacing_search candidate (pre @ lw # post) best_bits best = Inl e"
  using assms(2)
proof (induction pre arbitrary: best_bits best)
  case Nil
  with assms(1) show ?case by simp
next
  case (Cons x pre)
  then obtain b where "candidate x = Inr b" by auto
  with Cons show ?case by simp
qed

lemma leftweights_split:
  assumes "mn \<le> lw" and "lw \<le> mx"
  shows "\<exists>pre post. leftweights mn mx = pre @ lw # post \<and>
           (\<forall>lw'\<in>set pre. mn \<le> lw' \<and> lw' < lw)"
proof -
  have "lw \<in> set (leftweights mn mx)" using assms by (simp add: set_leftweights)
  then obtain pre post where sp: "leftweights mn mx = pre @ lw # post"
    by (auto simp: in_set_conv_decomp)
  have "sorted_wrt (<) (pre @ lw # post)"
    using sorted_leftweights [of mn mx] sp by simp
  then have "\<forall>y\<in>set pre. y < lw" using sorted_split by blast
  moreover have "\<forall>y\<in>set pre. mn \<le> y"
  proof
    fix y
    assume "y \<in> set pre"
    then have "y \<in> set (leftweights mn mx)" using sp by simp
    then show "mn \<le> y" by (simp add: set_leftweights)
  qed
  ultimately show ?thesis using sp by blast
qed

text \<open>A residual truncated to \<open>sample_size\<close> bits folds below \<open>2^sample_size\<close>: in the
  array \<open>calculate_residuals\<close> returns, only the first residual, the first sample, can
  raise the overflow.\<close>

lemma uint_word_of_int_32:
  "0 \<le> k \<Longrightarrow> k < 2 ^ 32 \<Longrightarrow> uint (word_of_int k :: 32 word) = k"
  by (simp add: uint_word_of_int_eq take_bit_int_eq_self)

lemma truncated_residual_fits:
  assumes "1 \<le> n" and "n \<le> 31"
  shows "fold_residual (TRUNCATE_BITS x n) < push_bit (unat n) 1"
proof -
  define m where "m = unat n - 1"
  define t where "t = sint (TRUNCATE_BITS x n)"
  have un: "unat n = Suc m" using assms(1) by (simp add: m_def word_le_nat_alt)
  have "unat n \<le> 31" using assms(2) by (simp add: word_le_nat_alt)
  then have m: "m \<le> 30" using un by simp
  have range: "- (2 ^ m) \<le> t" "t < 2 ^ m"
    using TRUNCATE_BITS_range [OF assms(1), of x] by (simp_all add: t_def m_def)
  have T: "TRUNCATE_BITS x n = word_of_int t" by (simp add: t_def)
  have p: "(2 :: int) ^ Suc m \<le> 2 ^ 31" using m by (intro power_increasing) simp_all
  have "unat (2 ^ Suc m :: 32 word) = 2 ^ Suc m" using m by (intro unat_exp_32) simp
  then have "uint (2 ^ Suc m :: 32 word) = int (2 ^ Suc m)" by (simp only: uint_nat)
  then have "uint (2 ^ Suc m :: 32 word) = 2 ^ Suc m" by (simp only: of_nat_power of_nat_numeral)
  moreover have "push_bit (unat n) (1 :: 32 word) = 2 ^ Suc m"
    unfolding un by (simp add: push_bit_eq_mult)
  ultimately have top: "uint (push_bit (unat n) 1 :: 32 word) = 2 ^ Suc m"
    by (simp only:)
  have "uint (fold_residual (TRUNCATE_BITS x n)) < 2 ^ Suc m"
  proof (cases "0 \<le> t")
    case True
    then have "0 \<le>s TRUNCATE_BITS x n" by (simp add: word_sle_eq t_def)
    then have "fold_residual (TRUNCATE_BITS x n) = word_of_int (2 * t)"
      by (simp add: fold_residual_def T push_bit_eq_mult)
    moreover have b: "0 \<le> 2 * t" "2 * t < 2 ^ Suc m" using True range by simp_all
    moreover from b p have "2 * t < 2 ^ 32" by simp
    with b(1) have "uint (word_of_int (2 * t) :: 32 word) = 2 * t"
      by (rule uint_word_of_int_32)
    ultimately show ?thesis by (simp only:)
  next
    case False
    then have "\<not> 0 \<le>s TRUNCATE_BITS x n" by (simp add: word_sle_eq t_def)
    then have "fold_residual (TRUNCATE_BITS x n) = word_of_int (2 * (- t) - 1)"
      by (simp add: fold_residual_def T push_bit_eq_mult)
    moreover have b: "0 \<le> 2 * (- t) - 1" "2 * (- t) - 1 < 2 ^ Suc m"
      using False range by simp_all
    moreover from b p have "2 * (- t) - 1 < 2 ^ 32" by simp
    with b(1) have "uint (word_of_int (2 * (- t) - 1) :: 32 word) = 2 * (- t) - 1"
      by (rule uint_word_of_int_32)
    ultimately show ?thesis by (simp only:)
  qed
  then show ?thesis unfolding word_less_def top .
qed

lemma later_residuals_fit:
  assumes "calculate_residuals sample_size sample_count samples order qlp_coefficients
             = Inr residuals"
      and "1 \<le> sample_size" and "sample_size \<le> 31"
      and "r \<in> set (tl residuals)"
  shows "fold_residual r < push_bit (unat sample_size) 1"
proof -
  from calculate_residuals_shape [OF assms(1)] assms(4)
  obtain x where "r = TRUNCATE_BITS x sample_size" by blast
  with truncated_residual_fits [OF assms(2,3), of x] show ?thesis by (simp only:)
qed

lemma write_non_interlaced_frame_overflow:
  assumes lp: "\<forall>windowed q4 q8. enc_quantized_lp encoder windowed = Some (q4, q8) \<longrightarrow>
                  4 \<le> length q4 \<and> 8 \<le> length q8"
      and one: "length channels = 1"
      and len: "9 \<le> length (channels ! 0)"
      and big: "push_bit (unat (enc_bits_per_sample encoder - uncompressed_LSBs * 8)) 1
                  \<le> fold_residual (channels ! 0 ! 0)"
  shows "write_non_interlaced_frame encoder uncompressed_LSBs LSBs channels
           = Inl ResidualOverflow"
proof -
  have "compute_coefficients encoder (length (channels ! 0)) (channels ! 0)
          (enc_bits_per_sample encoder - uncompressed_LSBs * 8) = Inl ResidualOverflow"
    using lp len _ big by (rule compute_coefficients_overflow) simp
  with one show ?thesis by (simp add: write_non_interlaced_frame_def)
qed

lemma write_interlaced_frame_overflow:
  assumes lp: "\<forall>windowed q4 q8. enc_quantized_lp encoder windowed = Some (q4, q8) \<longrightarrow>
                  4 \<le> length q4 \<and> 8 \<le> length q8"
      and cc: "correlate_channels channels shift leftweight = Inr [c0, c1]"
      and len: "9 \<le> length (channels ! 0)"
      and big: "push_bit (unat (enc_bits_per_sample encoder - uncompressed_LSBs * 8 + 1)) 1
                  \<le> fold_residual (c0 ! 0)
                \<or> (\<exists>r. compute_coefficients encoder (length c0) c0
                          (enc_bits_per_sample encoder - uncompressed_LSBs * 8 + 1) = Inr r)
                  \<and> push_bit (unat (enc_bits_per_sample encoder - uncompressed_LSBs * 8 + 1)) 1
                      \<le> fold_residual (c1 ! 0)"
  shows "write_interlaced_frame encoder uncompressed_LSBs LSBs shift leftweight channels
           = Inl ResidualOverflow"
proof -
  have two: "length channels = 2"
    using cc by (auto simp add: correlate_channels_def split: if_splits)
  from correlate_channels_shape [OF cc]
  have l: "9 \<le> length c0" "9 \<le> length c1" using len by simp_all
  from big show ?thesis
  proof
    assume "push_bit (unat (enc_bits_per_sample encoder - uncompressed_LSBs * 8 + 1)) 1
              \<le> fold_residual (c0 ! 0)"
    with lp l(1) have "compute_coefficients encoder (length c0) c0
          (enc_bits_per_sample encoder - uncompressed_LSBs * 8 + 1) = Inl ResidualOverflow"
      by (intro compute_coefficients_overflow) simp_all
    with two cc show ?thesis by (simp add: write_interlaced_frame_def)
  next
    assume b: "(\<exists>r. compute_coefficients encoder (length c0) c0
                      (enc_bits_per_sample encoder - uncompressed_LSBs * 8 + 1) = Inr r)
               \<and> push_bit (unat (enc_bits_per_sample encoder - uncompressed_LSBs * 8 + 1)) 1
                   \<le> fold_residual (c1 ! 0)"
    then obtain r where r: "compute_coefficients encoder (length c0) c0
                      (enc_bits_per_sample encoder - uncompressed_LSBs * 8 + 1) = Inr r"
      by blast
    obtain order0 q0 residual0 where r3: "r = (order0, q0, residual0)" by (cases r)
    from b lp l(2) have "compute_coefficients encoder (length c1) c1
          (enc_bits_per_sample encoder - uncompressed_LSBs * 8 + 1) = Inl ResidualOverflow"
      by (intro compute_coefficients_overflow) simp_all
    with two cc r r3 show ?thesis by (simp add: write_interlaced_frame_def)
  qed
qed

text \<open>
  Claim C4. A frame of 1 or 2 channels of equal length and at least 10 PCM frames,
  the floating-point stage delivering 4 and 8 coefficients. In the array
  \<open>calculate_residuals\<close> returns, only the first residual (the first sample of the
  channel) can fold to \<open>u \<ge> 2^sample_size\<close>; every later one is truncated to
  \<open>sample_size\<close> bits (between 1 and 31) and folds below. The compressed attempt folds such a residual when, for 1
  channel, the first sample of the channel the frame writer gets does; for 2
  channels, when at some leftweight of the range, every smaller one having written
  its candidate, the first sample of the first correlated channel does, or the first
  channel is encoded and the first sample of the second does. Then
  \<open>write_compressed_frame\<close> raises the residual overflow, and \<open>write_frame\<close> returns
  the stream \<open>bs\<close> followed by the 3-bit channel count and the uncompressed frame
  and by nothing else: 16 zero bits, the \<open>has_sample_count\<close> bit, 2 zero bits, the bit
  1 for \<open>not compressed\<close>, the 32-bit sample count if the block is short, and every
  sample of the input as \<open>bits_per_sample\<close> signed bits, PCM frame by PCM frame.
\<close>

theorem residual_overflow_fallback:
  assumes count: "length channels = 1 \<or> length channels = 2"
      and long: "10 \<le> length (channels ! 0)"
      and rect: "\<forall>ch\<in>set channels. length ch = length (channels ! 0)"
      and lp: "\<forall>windowed q4 q8. enc_quantized_lp encoder windowed = Some (q4, q8) \<longrightarrow>
                  4 \<le> length q4 \<and> 8 \<le> length q8"
      and split: "extract_LSBs encoder channels = (uncompressed_LSBs, LSBs, channels_MSB)"
      and overflow:
        "length channels = 1 \<and>
           push_bit (unat (enc_bits_per_sample encoder - uncompressed_LSBs * 8)) 1
             \<le> fold_residual (channels_MSB ! 0 ! 0)
         \<or>
         length channels = 2 \<and>
           (\<exists>leftweight c0 c1.
              opt_minimum_interlacing_leftweight (enc_options encoder) \<le> leftweight \<and>
              leftweight \<le> opt_maximum_interlacing_leftweight (enc_options encoder) \<and>
              (\<forall>lw. opt_minimum_interlacing_leftweight (enc_options encoder) \<le> lw \<and>
                    lw < leftweight \<longrightarrow>
                 (\<exists>b. write_interlaced_frame encoder uncompressed_LSBs LSBs 2 lw channels_MSB
                        = Inr b)) \<and>
              correlate_channels channels_MSB 2 leftweight = Inr [c0, c1] \<and>
              (push_bit (unat (enc_bits_per_sample encoder - uncompressed_LSBs * 8 + 1)) 1
                 \<le> fold_residual (c0 ! 0)
               \<or>
               (\<exists>r. compute_coefficients encoder (length c0) c0
                       (enc_bits_per_sample encoder - uncompressed_LSBs * 8 + 1) = Inr r) \<and>
               push_bit (unat (enc_bits_per_sample encoder - uncompressed_LSBs * 8 + 1)) 1
                 \<le> fold_residual (c1 ! 0)))"
  shows "write_compressed_frame encoder channels = Inl ResidualOverflow \<and>
         write_frame bs encoder channels =
           Inr (bs @ bw_write 3 (of_nat (length channels) - 1) @
                bw_write 16 0 @
                (if length (channels ! 0) = opt_block_size (enc_options encoder)
                 then bw_write 1 0 else bw_write 1 1) @
                bw_write 2 0 @ bw_write 1 1 @
                (if length (channels ! 0) \<noteq> opt_block_size (enc_options encoder)
                 then bw_write 32 (of_nat (length (channels ! 0))) else []) @
                concat (map (\<lambda>i. concat (map (\<lambda>c. bw_write_signed
                                                    (unat (enc_bits_per_sample encoder))
                                                    (channels ! c ! i))
                                           [0..<length channels]))
                          [0..<length (channels ! 0)]))"
proof -
  define mn where "mn = opt_minimum_interlacing_leftweight (enc_options encoder)"
  define mx where "mx = opt_maximum_interlacing_leftweight (enc_options encoder)"
  define cand where
    "cand = (\<lambda>lw. write_interlaced_frame encoder uncompressed_LSBs LSBs 2 lw channels_MSB)"
  have ne: "channels \<noteq> []" using count by auto
  have guard: "\<not> (channels = [] \<or> (\<exists>ch\<in>set channels. length ch < length (channels ! 0)))"
  proof
    assume "channels = [] \<or> (\<exists>ch\<in>set channels. length ch < length (channels ! 0))"
    with ne obtain ch where ch: "ch \<in> set channels" "length ch < length (channels ! 0)"
      by blast
    from rect ch(1) have "length ch = length (channels ! 0)" by blast
    with ch(2) show False by simp
  qed
  have "0 < length channels" using ne by simp
  with extract_LSBs_shape [OF split rect]
  have shape: "length channels_MSB = length channels"
      "length (channels_MSB ! 0) = length (channels ! 0)"
    by blast+
  have len9: "9 \<le> length (channels_MSB ! 0)" using long shape by simp
  from overflow consider
      (mono) "length channels = 1"
        "push_bit (unat (enc_bits_per_sample encoder - uncompressed_LSBs * 8)) 1
           \<le> fold_residual (channels_MSB ! 0 ! 0)"
    | (stereo) leftweight c0 c1 where "length channels = 2"
        "mn \<le> leftweight" "leftweight \<le> mx"
        "\<forall>lw. mn \<le> lw \<and> lw < leftweight \<longrightarrow> (\<exists>b. cand lw = Inr b)"
        "correlate_channels channels_MSB 2 leftweight = Inr [c0, c1]"
        "push_bit (unat (enc_bits_per_sample encoder - uncompressed_LSBs * 8 + 1)) 1
           \<le> fold_residual (c0 ! 0)
         \<or>
         (\<exists>r. compute_coefficients encoder (length c0) c0
                 (enc_bits_per_sample encoder - uncompressed_LSBs * 8 + 1) = Inr r) \<and>
         push_bit (unat (enc_bits_per_sample encoder - uncompressed_LSBs * 8 + 1)) 1
           \<le> fold_residual (c1 ! 0)"
    unfolding mn_def mx_def cand_def by blast
  then have raise: "write_compressed_frame encoder channels = Inl ResidualOverflow"
  proof cases
    case mono
    have "length channels_MSB = 1" using mono(1) shape by simp
    with lp have "write_non_interlaced_frame encoder uncompressed_LSBs LSBs channels_MSB
                    = Inl ResidualOverflow"
      using len9 mono(2) by (rule write_non_interlaced_frame_overflow)
    with guard split mono(1) show ?thesis by (simp add: write_compressed_frame_def)
  next
    case stereo
    have here: "cand leftweight = Inl ResidualOverflow"
      unfolding cand_def using lp stereo(5) len9 stereo(6)
      by (rule write_interlaced_frame_overflow)
    from leftweights_split [OF stereo(2,3)]
    obtain pre post where sp: "leftweights mn mx = pre @ leftweight # post"
      and pre: "\<forall>lw'\<in>set pre. mn \<le> lw' \<and> lw' < leftweight"
      by blast
    have "\<forall>lw'\<in>set pre. \<exists>b. cand lw' = Inr b"
      using pre stereo(4) by blast
    with here have "interlacing_search cand (leftweights mn mx) (- 1)
                      (enc_best_interlaced_frame encoder) = Inl ResidualOverflow"
      unfolding sp by (rule interlacing_search_stops)
    then have "write_best_interlaced_frame encoder uncompressed_LSBs LSBs channels_MSB
                 = Inl ResidualOverflow"
      unfolding write_best_interlaced_frame_def cand_def mn_def mx_def by simp
    with guard split stereo(1) show ?thesis by (simp add: write_compressed_frame_def)
  qed
  have unc: "write_uncompressed_frame encoder channels =
               Inr (bw_write 16 0 @
                    (if length (channels ! 0) = opt_block_size (enc_options encoder)
                     then bw_write 1 0 else bw_write 1 1) @
                    bw_write 2 0 @ bw_write 1 1 @
                    (if length (channels ! 0) \<noteq> opt_block_size (enc_options encoder)
                     then bw_write 32 (of_nat (length (channels ! 0))) else []) @
                    concat (map (\<lambda>i. concat (map (\<lambda>c. bw_write_signed
                                                        (unat (enc_bits_per_sample encoder))
                                                        (channels ! c ! i))
                                               [0..<length channels]))
                              [0..<length (channels ! 0)]))"
    using guard by (simp add: write_uncompressed_frame_def write_frame_header_def)
  have "write_frame bs encoder channels =
          Inr (bs @ bw_write 3 (of_nat (length channels) - 1) @
               bw_write 16 0 @
               (if length (channels ! 0) = opt_block_size (enc_options encoder)
                then bw_write 1 0 else bw_write 1 1) @
               bw_write 2 0 @ bw_write 1 1 @
               (if length (channels ! 0) \<noteq> opt_block_size (enc_options encoder)
                then bw_write 32 (of_nat (length (channels ! 0))) else []) @
               concat (map (\<lambda>i. concat (map (\<lambda>c. bw_write_signed
                                                   (unat (enc_bits_per_sample encoder))
                                                   (channels ! c ! i))
                                          [0..<length channels]))
                         [0..<length (channels ! 0)]))"
    using count
  proof
    assume "length channels = 1"
    with long raise unc show ?thesis by (simp add: write_frame_def Let_def)
  next
    assume "length channels = 2"
    with long raise unc show ?thesis by (simp add: write_frame_def Let_def)
  qed
  with raise show ?thesis by (rule conjI)
qed

lemma example_lp:
  "\<forall>windowed q4 q8.
     enc_quantized_lp (example_encoder (Some example_coefficients)) windowed = Some (q4, q8) \<longrightarrow>
     4 \<le> length q4 \<and> 8 \<le> length q8"
  by (auto simp add: example_encoder_def example_coefficients_def)

lemma example_overflow_split:
  "extract_LSBs (example_encoder (Some example_coefficients)) example_overflow_mono
     = (0, [], example_overflow_mono)"
  "extract_LSBs (example_encoder (Some example_coefficients)) example_overflow_stereo
     = (0, [], example_overflow_stereo)"
  by (simp_all add: extract_LSBs_def example_encoder_def)

lemma example_overflow_candidate_0:
  "\<not> isl (write_interlaced_frame (example_encoder (Some example_coefficients)) 0 [] 2 0
            example_overflow_stereo)"
  by code_simp

lemma example_overflow_correlated:
  "correlate_channels example_overflow_stereo 2 1 =
     Inr [[- 20000, 0, 0, 0, 0, 0, 0, 0, 0, 0], [80000, 0, 0, 0, 0, 0, 0, 0, 0, 0]]"
  by code_simp

lemma example_overflow_first_channel:
  "\<not> isl (compute_coefficients (example_encoder (Some example_coefficients))
            (length [- 20000, 0, 0, 0, 0, 0, 0, 0, 0, 0 :: 32 word])
            [- 20000, 0, 0, 0, 0, 0, 0, 0, 0, 0] (16 - 0 * 8 + 1))"
  by code_simp

theorem residual_overflow_fallback_witness:
  "push_bit (unat (16 :: 32 word)) 1 \<le> fold_residual (example_overflow_mono ! 0 ! 0) \<and>
   write_compressed_frame (example_encoder (Some example_coefficients)) example_overflow_mono
     = Inl ResidualOverflow \<and>
   write_frame [] (example_encoder (Some example_coefficients)) example_overflow_mono =
     Inr (bw_write 3 0 @ bw_write 16 0 @ bw_write 1 0 @ bw_write 2 0 @ bw_write 1 1 @
          concat (map (\<lambda>i. bw_write_signed 16 (example_overflow_mono ! 0 ! i)) [0..<10])) \<and>
   push_bit (unat (17 :: 32 word)) 1 \<le> fold_residual (80000 :: 32 word) \<and>
   write_compressed_frame (example_encoder (Some example_coefficients))
     example_overflow_stereo = Inl ResidualOverflow \<and>
   write_frame [] (example_encoder (Some example_coefficients)) example_overflow_stereo =
     Inr (bw_write 3 1 @ bw_write 16 0 @ bw_write 1 0 @ bw_write 2 0 @ bw_write 1 1 @
          concat (map (\<lambda>i. bw_write_signed 16 (example_overflow_stereo ! 0 ! i) @
                            bw_write_signed 16 (example_overflow_stereo ! 1 ! i))
                    [0..<10]))"
proof -
  let ?E = "example_encoder (Some example_coefficients)"
  have E: "enc_bits_per_sample ?E = 16" "opt_block_size (enc_options ?E) = 10"
      "opt_minimum_interlacing_leftweight (enc_options ?E) = 0"
      "opt_maximum_interlacing_leftweight (enc_options ?E) = 4"
    by (simp_all add: example_encoder_def example_options_def)
  have m: "length example_overflow_mono = 1" "length (example_overflow_mono ! 0) = 10"
      "\<forall>ch\<in>set example_overflow_mono. length ch = length (example_overflow_mono ! 0)"
    by (simp_all add: example_overflow_mono_def)
  have s: "length example_overflow_stereo = 2" "length (example_overflow_stereo ! 0) = 10"
      "\<forall>ch\<in>set example_overflow_stereo. length ch = length (example_overflow_stereo ! 0)"
    by (simp_all add: example_overflow_stereo_def)
  have big16: "push_bit (unat (16 :: 32 word)) 1 \<le> fold_residual (example_overflow_mono ! 0 ! 0)"
    by (simp add: example_overflow_mono_def fold_residual_def)
  have big17: "push_bit (unat (17 :: 32 word)) 1 \<le> fold_residual (80000 :: 32 word)"
    by (simp add: fold_residual_def)
  have mono_overflow:
    "length example_overflow_mono = 1 \<and>
       push_bit (unat (enc_bits_per_sample ?E - 0 * 8)) 1
         \<le> fold_residual (example_overflow_mono ! 0 ! 0)
     \<or>
     length example_overflow_mono = 2 \<and>
       (\<exists>leftweight c0 c1.
          opt_minimum_interlacing_leftweight (enc_options ?E) \<le> leftweight \<and>
          leftweight \<le> opt_maximum_interlacing_leftweight (enc_options ?E) \<and>
          (\<forall>lw. opt_minimum_interlacing_leftweight (enc_options ?E) \<le> lw \<and>
                lw < leftweight \<longrightarrow>
             (\<exists>b. write_interlaced_frame ?E 0 [] 2 lw example_overflow_mono = Inr b)) \<and>
          correlate_channels example_overflow_mono 2 leftweight = Inr [c0, c1] \<and>
          (push_bit (unat (enc_bits_per_sample ?E - 0 * 8 + 1)) 1 \<le> fold_residual (c0 ! 0)
           \<or>
           (\<exists>r. compute_coefficients ?E (length c0) c0
                   (enc_bits_per_sample ?E - 0 * 8 + 1) = Inr r) \<and>
           push_bit (unat (enc_bits_per_sample ?E - 0 * 8 + 1)) 1 \<le> fold_residual (c1 ! 0)))"
    using m(1) big16 E(1) by simp
  have before: "\<forall>lw. opt_minimum_interlacing_leftweight (enc_options ?E) \<le> lw \<and> lw < 1 \<longrightarrow>
                  (\<exists>b. write_interlaced_frame ?E 0 [] 2 lw example_overflow_stereo = Inr b)"
  proof (intro allI impI)
    fix lw :: "32 word"
    assume "opt_minimum_interlacing_leftweight (enc_options ?E) \<le> lw \<and> lw < 1"
    then have "lw = 0" by (simp add: word_less_1)
    with example_overflow_candidate_0
    show "\<exists>b. write_interlaced_frame ?E 0 [] 2 lw example_overflow_stereo = Inr b"
      by (cases "write_interlaced_frame ?E 0 [] 2 0 example_overflow_stereo") simp_all
  qed
  obtain r where first: "compute_coefficients ?E
                           (length [- 20000, 0, 0, 0, 0, 0, 0, 0, 0, 0 :: 32 word])
                           [- 20000, 0, 0, 0, 0, 0, 0, 0, 0, 0]
                           (enc_bits_per_sample ?E - 0 * 8 + 1) = Inr r"
    using example_overflow_first_channel unfolding E(1)
    by (cases "compute_coefficients ?E
                 (length [- 20000, 0, 0, 0, 0, 0, 0, 0, 0, 0 :: 32 word])
                 [- 20000, 0, 0, 0, 0, 0, 0, 0, 0, 0] (16 - 0 * 8 + 1)") simp_all
  have big17': "push_bit (unat (enc_bits_per_sample ?E - 0 * 8 + 1)) 1
                  \<le> fold_residual ([80000, 0, 0, 0, 0, 0, 0, 0, 0, 0 :: 32 word] ! 0)"
    unfolding E(1) by (simp add: fold_residual_def)
  have range: "opt_minimum_interlacing_leftweight (enc_options ?E) \<le> 1"
      "1 \<le> opt_maximum_interlacing_leftweight (enc_options ?E)"
    by (simp_all add: E)
  have stereo_overflow:
    "length example_overflow_stereo = 1 \<and>
       push_bit (unat (enc_bits_per_sample ?E - 0 * 8)) 1
         \<le> fold_residual (example_overflow_stereo ! 0 ! 0)
     \<or>
     length example_overflow_stereo = 2 \<and>
       (\<exists>leftweight c0 c1.
          opt_minimum_interlacing_leftweight (enc_options ?E) \<le> leftweight \<and>
          leftweight \<le> opt_maximum_interlacing_leftweight (enc_options ?E) \<and>
          (\<forall>lw. opt_minimum_interlacing_leftweight (enc_options ?E) \<le> lw \<and>
                lw < leftweight \<longrightarrow>
             (\<exists>b. write_interlaced_frame ?E 0 [] 2 lw example_overflow_stereo = Inr b)) \<and>
          correlate_channels example_overflow_stereo 2 leftweight = Inr [c0, c1] \<and>
          (push_bit (unat (enc_bits_per_sample ?E - 0 * 8 + 1)) 1 \<le> fold_residual (c0 ! 0)
           \<or>
           (\<exists>r. compute_coefficients ?E (length c0) c0
                   (enc_bits_per_sample ?E - 0 * 8 + 1) = Inr r) \<and>
           push_bit (unat (enc_bits_per_sample ?E - 0 * 8 + 1)) 1 \<le> fold_residual (c1 ! 0)))"
    using s(1) range before example_overflow_correlated first big17' by blast
  have m_count: "length example_overflow_mono = 1 \<or> length example_overflow_mono = 2"
    using m(1) by simp
  have s_count: "length example_overflow_stereo = 1 \<or> length example_overflow_stereo = 2"
    using s(1) by simp
  have m_long: "10 \<le> length (example_overflow_mono ! 0)" using m(2) by simp
  have s_long: "10 \<le> length (example_overflow_stereo ! 0)" using s(2) by simp
  note mono = residual_overflow_fallback
                [OF m_count m_long m(3) example_lp example_overflow_split(1) mono_overflow,
                 of "[]"]
  note stereo = residual_overflow_fallback
                  [OF s_count s_long s(3) example_lp example_overflow_split(2) stereo_overflow,
                   of "[]"]
  have "write_frame [] ?E example_overflow_mono =
     Inr (bw_write 3 0 @ bw_write 16 0 @ bw_write 1 0 @ bw_write 2 0 @ bw_write 1 1 @
          concat (map (\<lambda>i. bw_write_signed 16 (example_overflow_mono ! 0 ! i)) [0..<10]))"
    using mono m(1,2) E(1,2) by simp
  moreover have "write_frame [] ?E example_overflow_stereo =
     Inr (bw_write 3 1 @ bw_write 16 0 @ bw_write 1 0 @ bw_write 2 0 @ bw_write 1 1 @
          concat (map (\<lambda>i. bw_write_signed 16 (example_overflow_stereo ! 0 ! i) @
                            bw_write_signed 16 (example_overflow_stereo ! 1 ! i))
                    [0..<10]))"
    using stereo s(1,2) E(1,2) by (simp add: upt_rec)
  ultimately show ?thesis using mono stereo big16 big17 by blast
qed

subsection \<open>C5: the choice between order 4 and order 8\<close>

lemma of_nat_less_32:
  "a < 2 ^ 32 \<Longrightarrow> b < 2 ^ 32 \<Longrightarrow> ((of_nat a :: 32 word) < of_nat b) = (a < b)"
  by (simp add: word_less_nat_alt unat_of_nat take_bit_nat_eq_self)

text \<open>
  Claim C5. For every block whose autocorrelation is not zero (the floating-point
  stage returns quantized coefficients for order 4 and order 8), with \<open>b4\<close> and \<open>b8\<close>
  the residual blocks that \<open>encode_residuals\<close> writes for the two orders,
  \<open>compute_coefficients\<close> returns order 4, its four coefficients and \<open>b4\<close> if
  \<open>bits(b4) < bits(b8) + 64\<close>, and order 8, its eight coefficients and \<open>b8\<close> otherwise.
  The counts are those of an \<open>unsigned\<close> bit counter, so both are taken below \<open>2^32\<close>.
\<close>

theorem compute_coefficients_order:
  assumes lp: "enc_quantized_lp encoder (take sample_count samples) = Some (qlp4, qlp8)"
      and r4: "calculate_residuals sample_size sample_count samples 4 qlp4 = Inr r4"
      and r8: "calculate_residuals sample_size sample_count samples 8 qlp8 = Inr r8"
      and b4: "encode_residuals (enc_options encoder) sample_size sample_count r4 = Inr b4"
      and b8: "encode_residuals (enc_options encoder) sample_size sample_count r8 = Inr b8"
      and fit: "length b4 < 2 ^ 32" "length b8 + 64 < 2 ^ 32"
  shows "compute_coefficients encoder sample_count samples sample_size =
           (if length b4 < length b8 + 64 then Inr (4, take 4 qlp4, b4)
            else Inr (8, take 8 qlp8, b8))"
proof -
  have "(of_nat (length b8) + 64 :: 32 word) = of_nat (length b8 + 64)"
    by simp
  then have "(bits_written b4 < bits_written b8 + 64) = (length b4 < length b8 + 64)"
    unfolding bits_written_def using fit by (simp only: of_nat_less_32)
  then show ?thesis
    using lp r4 r8 b4 b8 by (simp add: compute_coefficients_def)
qed

lemma example_residuals4:
  "calculate_residuals 16 10 example_mono 4 [100, - 50, 20, 10]
     = Inr [1, 4, - 3, 6, - 5, 8, - 2, 5, - 3, 3]"
  by code_simp

lemma example_residuals8:
  "calculate_residuals 16 10 example_mono 8 [100, - 50, 20, 10, 5, 4, 3, 2]
     = Inr [1, 4, - 3, 6, - 5, 6, - 5, 3, - 2, 4]"
  by code_simp

lemma example_block4:
  "map_sum id length
     (encode_residuals example_options 16 10 [1, 4, - 3, 6, - 5, 8, - 2, 5, - 3, 3]) = Inr 74"
  by code_simp

lemma example_block8:
  "map_sum id length
     (encode_residuals example_options 16 10 [1, 4, - 3, 6, - 5, 6, - 5, 3, - 2, 4]) = Inr 72"
  by code_simp

theorem compute_coefficients_order_witness:
  "\<exists>b4 b8.
     enc_quantized_lp
       (example_encoder (Some ([100, - 50, 20, 10], [100, - 50, 20, 10, 5, 4, 3, 2])))
       (take 10 example_mono) = Some ([100, - 50, 20, 10], [100, - 50, 20, 10, 5, 4, 3, 2]) \<and>
     calculate_residuals 16 10 example_mono 4 [100, - 50, 20, 10]
       = Inr [1, 4, - 3, 6, - 5, 8, - 2, 5, - 3, 3] \<and>
     calculate_residuals 16 10 example_mono 8 [100, - 50, 20, 10, 5, 4, 3, 2]
       = Inr [1, 4, - 3, 6, - 5, 6, - 5, 3, - 2, 4] \<and>
     encode_residuals example_options 16 10 [1, 4, - 3, 6, - 5, 8, - 2, 5, - 3, 3] = Inr b4 \<and>
     encode_residuals example_options 16 10 [1, 4, - 3, 6, - 5, 6, - 5, 3, - 2, 4] = Inr b8 \<and>
     length b4 = 74 \<and> length b8 = 72 \<and>
     compute_coefficients
       (example_encoder (Some ([100, - 50, 20, 10], [100, - 50, 20, 10, 5, 4, 3, 2])))
       10 example_mono 16 = Inr (4, [100, - 50, 20, 10], b4)"
proof -
  define encoder where
    "encoder = example_encoder (Some ([100, - 50, 20, 10], [100, - 50, 20, 10, 5, 4, 3, 2]))"
  have opts: "enc_options encoder = example_options"
    by (simp add: encoder_def example_encoder_def)
  have lp: "enc_quantized_lp encoder (take 10 example_mono)
              = Some ([100, - 50, 20, 10], [100, - 50, 20, 10, 5, 4, 3, 2])"
    by (simp add: encoder_def example_encoder_def)
  obtain b4 where b4:
    "encode_residuals example_options 16 10 [1, 4, - 3, 6, - 5, 8, - 2, 5, - 3, 3] = Inr b4"
    "length b4 = 74"
    using map_sum_length_Inr [OF example_block4] by blast
  obtain b8 where b8:
    "encode_residuals example_options 16 10 [1, 4, - 3, 6, - 5, 6, - 5, 3, - 2, 4] = Inr b8"
    "length b8 = 72"
    using map_sum_length_Inr [OF example_block8] by blast
  have fit: "length b4 < 2 ^ 32" "length b8 + 64 < 2 ^ 32"
    using b4(2) b8(2) by simp_all
  have "compute_coefficients encoder 10 example_mono 16 =
          (if length b4 < length b8 + 64 then Inr (4, take 4 [100, - 50, 20, 10], b4)
           else Inr (8, take 8 [100, - 50, 20, 10, 5, 4, 3, 2], b8))"
    using compute_coefficients_order [of encoder 10 example_mono, OF lp
        example_residuals4 example_residuals8, of b4 b8] b4(1) b8(1) fit
    unfolding opts by blast
  then have "compute_coefficients encoder 10 example_mono 16 = Inr (4, [100, - 50, 20, 10], b4)"
    using b4(2) b8(2) by simp
  with lp b4 b8 example_residuals4 example_residuals8 show ?thesis
    unfolding encoder_def by blast
qed

subsection \<open>C6: the leftweight search\<close>

lemma bits_written_less:
  assumes "length b < 2 ^ 32"
  shows "(bits_written b < bb) = (length b < unat bb)"
proof -
  have "unat (of_nat (length b) :: 32 word) = length b"
    using assms by (simp add: unat_of_nat take_bit_nat_eq_self)
  then show ?thesis by (simp add: bits_written_def word_less_nat_alt)
qed

lemma unat_bits_written: "length b < 2 ^ 32 \<Longrightarrow> unat (bits_written b) = length b"
  by (simp add: bits_written_def unat_of_nat take_bit_nat_eq_self)

text \<open>What the search returns over a list of leftweights: either no candidate was
  shorter than the best so far, or the result is the candidate of some position of
  the list, strictly shorter than every candidate before it and at most as long as
  every candidate after it.\<close>

lemma interlacing_search_result:
  assumes "interlacing_search candidate lws bb best = Inr result"
      and "\<forall>lw\<in>set lws. \<forall>b. candidate lw = Inr b \<longrightarrow> length b < 2 ^ 32 - 1"
  shows "(result = best \<and> (\<forall>lw\<in>set lws. \<exists>b. candidate lw = Inr b \<and> unat bb \<le> length b)) \<or>
         (\<exists>pre lw post. lws = pre @ lw # post \<and> candidate lw = Inr result \<and>
             length result < unat bb \<and>
             (\<forall>lw'\<in>set pre. \<exists>b. candidate lw' = Inr b \<and> length result < length b) \<and>
             (\<forall>lw'\<in>set post. \<exists>b. candidate lw' = Inr b \<and> length result \<le> length b))"
  using assms
proof (induction lws arbitrary: bb best)
  case Nil
  then show ?case by simp
next
  case (Cons lw rest)
  from Cons.prems(1) obtain b where b: "candidate lw = Inr b"
    by (cases "candidate lw") simp_all
  with Cons.prems(2) have small: "length b < 2 ^ 32 - 1" by simp
  then have fits: "length b < 2 ^ 32" by simp
  have rest_small: "\<forall>lw\<in>set rest. \<forall>b. candidate lw = Inr b \<longrightarrow> length b < 2 ^ 32 - 1"
    using Cons.prems(2) by simp
  show ?case
  proof (cases "length b < unat bb")
    case True
    then have "interlacing_search candidate rest (bits_written b) b = Inr result"
      using Cons.prems(1) b bits_written_less [OF fits, of bb] by simp
    from Cons.IH [OF this rest_small]
    consider (kept) "result = b"
        "\<forall>lw\<in>set rest. \<exists>b'. candidate lw = Inr b' \<and> length b \<le> length b'"
      | (later) pre l post where "rest = pre @ l # post" "candidate l = Inr result"
        "length result < length b"
        "\<forall>lw'\<in>set pre. \<exists>b. candidate lw' = Inr b \<and> length result < length b"
        "\<forall>lw'\<in>set post. \<exists>b. candidate lw' = Inr b \<and> length result \<le> length b"
      unfolding unat_bits_written [OF fits] by blast
    then show ?thesis
    proof cases
      case kept
      then have "lw # rest = [] @ lw # rest \<and> candidate lw = Inr result \<and>
                 length result < unat bb \<and>
                 (\<forall>lw'\<in>set []. \<exists>b. candidate lw' = Inr b \<and> length result < length b) \<and>
                 (\<forall>lw'\<in>set rest. \<exists>b. candidate lw' = Inr b \<and> length result \<le> length b)"
        using b True by simp
      then show ?thesis by blast
    next
      case later
      then have "lw # rest = (lw # pre) @ l # post \<and> candidate l = Inr result \<and>
                 length result < unat bb \<and>
                 (\<forall>lw'\<in>set (lw # pre). \<exists>b. candidate lw' = Inr b \<and> length result < length b) \<and>
                 (\<forall>lw'\<in>set post. \<exists>b. candidate lw' = Inr b \<and> length result \<le> length b)"
        using b True by auto
      then show ?thesis by blast
    qed
  next
    case False
    then have "interlacing_search candidate rest bb best = Inr result"
      using Cons.prems(1) b bits_written_less [OF fits, of bb] by simp
    from Cons.IH [OF this rest_small]
    consider (kept) "result = best"
        "\<forall>lw\<in>set rest. \<exists>b'. candidate lw = Inr b' \<and> unat bb \<le> length b'"
      | (later) pre l post where "rest = pre @ l # post" "candidate l = Inr result"
        "length result < unat bb"
        "\<forall>lw'\<in>set pre. \<exists>b. candidate lw' = Inr b \<and> length result < length b"
        "\<forall>lw'\<in>set post. \<exists>b. candidate lw' = Inr b \<and> length result \<le> length b"
      by blast
    then show ?thesis
    proof cases
      case kept
      with b False show ?thesis by auto
    next
      case later
      then have "lw # rest = (lw # pre) @ l # post \<and> candidate l = Inr result \<and>
                 length result < unat bb \<and>
                 (\<forall>lw'\<in>set (lw # pre). \<exists>b. candidate lw' = Inr b \<and> length result < length b) \<and>
                 (\<forall>lw'\<in>set post. \<exists>b. candidate lw' = Inr b \<and> length result \<le> length b)"
        using b False by auto
      then show ?thesis by blast
    qed
  qed
qed

text \<open>
  Claim C6. For every 2-channel frame that \<open>write_compressed_frame\<close> writes, with the
  minimum leftweight at most the maximum and every candidate frame shorter than
  \<open>2^32 - 1\<close> bits (the initial best count of the search is \<open>UINT_MAX\<close>), the frame
  written is the candidate \<open>write_interlaced_frame\<close> produces for some leftweight
  \<open>lw\<close> of the range; every leftweight of the range has a candidate, none of them
  shorter than the frame written, and every leftweight below \<open>lw\<close> has a strictly
  longer candidate: the bit count is minimal and a tie goes to the earliest
  leftweight.
\<close>

theorem best_interlaced_frame_minimal:
  assumes stereo: "length channels = 2"
      and split: "extract_LSBs encoder channels = (uncompressed_LSBs, LSBs, channels_MSB)"
      and ok: "write_compressed_frame encoder channels = Inr frame"
      and range: "opt_minimum_interlacing_leftweight (enc_options encoder)
                    \<le> opt_maximum_interlacing_leftweight (enc_options encoder)"
      and small: "\<forall>lw b. opt_minimum_interlacing_leftweight (enc_options encoder) \<le> lw
                    \<and> lw \<le> opt_maximum_interlacing_leftweight (enc_options encoder)
                    \<and> write_interlaced_frame encoder uncompressed_LSBs LSBs 2 lw channels_MSB
                        = Inr b
                    \<longrightarrow> length b < 2 ^ 32 - 1"
  shows "\<exists>lw. opt_minimum_interlacing_leftweight (enc_options encoder) \<le> lw \<and>
              lw \<le> opt_maximum_interlacing_leftweight (enc_options encoder) \<and>
              write_interlaced_frame encoder uncompressed_LSBs LSBs 2 lw channels_MSB
                = Inr frame \<and>
              (\<forall>lw'. opt_minimum_interlacing_leftweight (enc_options encoder) \<le> lw' \<and>
                     lw' \<le> opt_maximum_interlacing_leftweight (enc_options encoder) \<longrightarrow>
                 (\<exists>b. write_interlaced_frame encoder uncompressed_LSBs LSBs 2 lw' channels_MSB
                         = Inr b \<and>
                       length frame \<le> length b \<and> (lw' < lw \<longrightarrow> length frame < length b)))"
proof -
  define mn where "mn = opt_minimum_interlacing_leftweight (enc_options encoder)"
  define mx where "mx = opt_maximum_interlacing_leftweight (enc_options encoder)"
  define cand where
    "cand = (\<lambda>lw. write_interlaced_frame encoder uncompressed_LSBs LSBs 2 lw channels_MSB)"
  have best: "write_best_interlaced_frame encoder uncompressed_LSBs LSBs channels_MSB = Inr frame"
    using ok stereo split by (simp add: write_compressed_frame_def split: if_splits)
  then have search:
    "interlacing_search cand (leftweights mn mx) (- 1) (enc_best_interlaced_frame encoder)
       = Inr frame"
    unfolding write_best_interlaced_frame_def mn_def mx_def cand_def
    by (simp split: sum.splits if_splits)
  have sm: "\<forall>lw\<in>set (leftweights mn mx). \<forall>b. cand lw = Inr b \<longrightarrow> length b < 2 ^ 32 - 1"
    using small unfolding mn_def mx_def cand_def by (auto simp: set_leftweights)
  have top: "unat (- 1 :: 32 word) = 2 ^ 32 - 1"
    by (simp add: unsigned_minus_1_eq_mask mask_eq_exp_minus_1)
  have mem: "mn \<in> set (leftweights mn mx)"
    using range unfolding set_leftweights mn_def mx_def by simp
  from interlacing_search_result [OF search sm]
  consider (kept)
      "\<forall>lw\<in>set (leftweights mn mx). \<exists>b. cand lw = Inr b \<and> unat (- 1 :: 32 word) \<le> length b"
    | (found) pre lw post where "leftweights mn mx = pre @ lw # post" "cand lw = Inr frame"
        "\<forall>lw'\<in>set pre. \<exists>b. cand lw' = Inr b \<and> length frame < length b"
        "\<forall>lw'\<in>set post. \<exists>b. cand lw' = Inr b \<and> length frame \<le> length b"
    by blast
  then show ?thesis
  proof cases
    case kept
    with mem obtain b where "cand mn = Inr b" "unat (- 1 :: 32 word) \<le> length b" by blast
    moreover from sm mem \<open>cand mn = Inr b\<close> have "length b < 2 ^ 32 - 1" by blast
    ultimately show ?thesis unfolding top by simp
  next
    case found
    have "sorted_wrt (<) (pre @ lw # post)"
      using sorted_leftweights [of mn mx] found(1) by simp
    then have ord: "\<forall>y\<in>set pre. y < lw" "\<forall>y\<in>set post. lw < y"
      using sorted_split by blast+
    have lw: "mn \<le> lw \<and> lw \<le> mx"
      using found(1) set_leftweights [of lw mn mx] by simp
    have all: "\<exists>b. cand lw' = Inr b \<and> length frame \<le> length b \<and>
                   (lw' < lw \<longrightarrow> length frame < length b)"
      if "mn \<le> lw' \<and> lw' \<le> mx" for lw'
    proof -
      from that have "lw' \<in> set (pre @ lw # post)"
        using set_leftweights [of lw' mn mx] found(1) by simp
      then consider "lw' \<in> set pre" | "lw' = lw" | "lw' \<in> set post" by auto
      then show ?thesis
      proof cases
        case 1
        with found(3) show ?thesis by fastforce
      next
        case 2
        with found(2) show ?thesis by simp
      next
        case 3
        with ord(2) have "\<not> lw' < lw" by fastforce
        with 3 found(4) show ?thesis by fastforce
      qed
    qed
    show ?thesis
      unfolding mn_def [symmetric] mx_def [symmetric]
      using lw found(2) all unfolding cand_def by blast
  qed
qed

lemma word_le_2_cases: "(lw :: 32 word) \<le> 2 \<Longrightarrow> lw = 0 \<or> lw = 1 \<or> lw = 2"
proof -
  assume "lw \<le> 2"
  then have "unat lw \<le> 2" by (simp add: word_le_nat_alt)
  then have "unat lw = 0 \<or> unat lw = 1 \<or> unat lw = 2" by linarith
  then show ?thesis unfolding word_unat_eq_iff by simp
qed

lemma example_candidate_0:
  "map_sum id length
     (write_interlaced_frame example_encoder_short_search 0 [] 2 0 example_stereo) = Inr 315"
  by code_simp

lemma example_candidate_1:
  "map_sum id length
     (write_interlaced_frame example_encoder_short_search 0 [] 2 1 example_stereo) = Inr 304"
  by code_simp

lemma example_candidate_2:
  "map_sum id length
     (write_interlaced_frame example_encoder_short_search 0 [] 2 2 example_stereo) = Inr 304"
  by code_simp

lemma example_frame_written:
  "\<not> isl (write_compressed_frame example_encoder_short_search example_stereo)"
  by code_simp

lemma example_split:
  "extract_LSBs example_encoder_short_search example_stereo = (0, [], example_stereo)"
  by code_simp

lemma example_range:
  "opt_minimum_interlacing_leftweight (enc_options example_encoder_short_search) = 0"
  "opt_maximum_interlacing_leftweight (enc_options example_encoder_short_search) = 2"
  by (simp_all add: example_encoder_short_search_def example_encoder_def example_options_def)

theorem best_interlaced_frame_minimal_witness:
  "length example_stereo = 2 \<and>
   extract_LSBs example_encoder_short_search example_stereo = (0, [], example_stereo) \<and>
   opt_minimum_interlacing_leftweight (enc_options example_encoder_short_search)
     \<le> opt_maximum_interlacing_leftweight (enc_options example_encoder_short_search) \<and>
   (\<exists>frame b0 b2.
      write_compressed_frame example_encoder_short_search example_stereo = Inr frame \<and>
      write_interlaced_frame example_encoder_short_search 0 [] 2 0 example_stereo = Inr b0 \<and>
      write_interlaced_frame example_encoder_short_search 0 [] 2 1 example_stereo = Inr frame \<and>
      write_interlaced_frame example_encoder_short_search 0 [] 2 2 example_stereo = Inr b2 \<and>
      length b0 = 315 \<and> length frame = 304 \<and> length b2 = 304)"
proof -
  define cand where
    "cand = (\<lambda>lw. write_interlaced_frame example_encoder_short_search 0 [] 2 lw example_stereo)"
  have stereo: "length example_stereo = 2"
    by (simp add: example_stereo_def)
  have range: "opt_minimum_interlacing_leftweight (enc_options example_encoder_short_search)
                 \<le> opt_maximum_interlacing_leftweight (enc_options example_encoder_short_search)"
    by (simp add: example_range)
  obtain frame where frame:
    "write_compressed_frame example_encoder_short_search example_stereo = Inr frame"
    using example_frame_written
    by (cases "write_compressed_frame example_encoder_short_search example_stereo") simp_all
  obtain b0 where b0: "cand 0 = Inr b0" "length b0 = 315"
    using map_sum_length_Inr [OF example_candidate_0] unfolding cand_def by blast
  obtain b1 where b1: "cand 1 = Inr b1" "length b1 = 304"
    using map_sum_length_Inr [OF example_candidate_1] unfolding cand_def by blast
  obtain b2 where b2: "cand 2 = Inr b2" "length b2 = 304"
    using map_sum_length_Inr [OF example_candidate_2] unfolding cand_def by blast
  have small: "\<forall>lw b. opt_minimum_interlacing_leftweight (enc_options example_encoder_short_search) \<le> lw
                 \<and> lw \<le> opt_maximum_interlacing_leftweight (enc_options example_encoder_short_search)
                 \<and> write_interlaced_frame example_encoder_short_search 0 [] 2 lw example_stereo
                     = Inr b
                 \<longrightarrow> length b < 2 ^ 32 - 1"
  proof (intro allI impI)
    fix lw b
    assume a: "opt_minimum_interlacing_leftweight (enc_options example_encoder_short_search) \<le> lw
                 \<and> lw \<le> opt_maximum_interlacing_leftweight (enc_options example_encoder_short_search)
                 \<and> write_interlaced_frame example_encoder_short_search 0 [] 2 lw example_stereo
                     = Inr b"
    then have "lw = 0 \<or> lw = 1 \<or> lw = 2"
      using word_le_2_cases [of lw] by (simp add: example_range)
    moreover from a have "cand lw = Inr b" by (simp add: cand_def)
    ultimately have "length b = 315 \<or> length b = 304"
      using b0 b1 b2 by auto
    then show "length b < 2 ^ 32 - 1" by auto
  qed
  from best_interlaced_frame_minimal [OF stereo example_split frame range small]
  obtain lw where lw: "lw \<le> 2" "cand lw = Inr frame"
    and least: "\<And>lw'. lw' \<le> 2 \<Longrightarrow>
                  \<exists>b. cand lw' = Inr b \<and> length frame \<le> length b \<and>
                      (lw' < lw \<longrightarrow> length frame < length b)"
    unfolding example_range cand_def by auto
  from lw(1) have "lw = 0 \<or> lw = 1 \<or> lw = 2" by (rule word_le_2_cases)
  moreover have "lw \<noteq> 0"
  proof
    assume "lw = 0"
    with lw(2) b0 have "length frame = 315" by simp
    with least [of 1] b1 show False by simp
  qed
  moreover have "lw \<noteq> 2"
  proof
    assume "lw = 2"
    with lw(2) b2 have "length frame = 304" by simp
    with least [of 1] b1 \<open>lw = 2\<close> show False by simp
  qed
  ultimately have "lw = 1" by blast
  with lw(2) b1 have "cand 1 = Inr frame" "length frame = 304" by simp_all
  with stereo example_split range frame b0 b2 show ?thesis
    unfolding cand_def by blast
qed

section \<open>Properties of the decoder\<close>

subsection \<open>C9: a subframe with no coefficients\<close>

lemma rounding_term_vanishes:
  assumes "m < 31"
  shows "(ucast (signed_drop_bit (Suc m) (scast (push_bit m (1 :: 32 word)) :: 64 word))
            :: 32 word) = 0"
proof -
  have a: "(scast (push_bit m (1 :: 32 word)) :: 64 word) = push_bit m 1"
    using assms by (intro bit_eqI) (auto simp add: bit_simps)
  have b: "signed_drop_bit (Suc m) (push_bit m 1 :: 64 word) = 0"
    using assms by (intro bit_eqI) (auto simp add: bit_simps bit_signed_drop_bit_iff)
  show ?thesis unfolding a b by simp
qed

text \<open>With no coefficients and a shift from 1 to 31, one pass of the predictor loop
  appends \<open>residuals[i] + subframe[i - 1]\<close> and leaves \<open>coeff\<close> alone.\<close>

lemma decode_subframe_body_order_0:
  assumes s: "0 < unat s" "unat s < 32"
      and i: "0 < i" "length subframe = i"
  shows "decode_subframe_body s 0 residuals i (cs, subframe) =
           (cs, subframe @ [residuals ! i + subframe ! (i - 1)])"
proof -
  define m where "m = unat s - 1"
  have un: "unat s = Suc m" using s by (simp add: m_def)
  have "s \<noteq> 0" using s by (auto simp: unat_eq_0)
  then have un1: "unat (s - 1) = m" by (simp add: unat_minus_one m_def)
  have "m < 31" using s un by simp
  then have z: "(ucast (signed_drop_bit (Suc m) (scast (push_bit m (1 :: 32 word)) :: 64 word))
                   :: 32 word) = 0"
    by (rule rounding_term_vanishes)
  show ?thesis
    unfolding decode_subframe_body_def Let_def un un1
    using z i by (simp del: push_bit_of_1 push_bit_Suc)
qed

lemma decode_subframe_prefix_sums:
  assumes s: "0 < unat s" "unat s < 32"
  shows "0 < n \<Longrightarrow> n \<le> length residuals \<Longrightarrow>
         fold (decode_subframe_body s 0 residuals) [1..<n] (cs, [residuals ! 0]) =
           (cs, map (\<lambda>i. sum_list (take (Suc i) residuals)) [0..<n])"
proof (induction n)
  case 0
  then show ?case by simp
next
  case (Suc n)
  show ?case
  proof (cases "n = 0")
    case True
    with Suc.prems show ?thesis by (cases residuals) simp_all
  next
    case False
    then have n: "0 < n" "n \<le> length residuals" "n < length residuals"
      using Suc.prems by simp_all
    let ?P = "map (\<lambda>i. sum_list (take (Suc i) residuals)) [0..<n]"
    have IH: "fold (decode_subframe_body s 0 residuals) [1..<n] (cs, [residuals ! 0]) = (cs, ?P)"
      using Suc.IH n by simp
    have up: "[1..<Suc n] = [1..<n] @ [n]" using n(1) by simp
    have last: "?P ! (n - 1) = sum_list (take n residuals)" using n(1) by simp
    have step: "decode_subframe_body s 0 residuals n (cs, ?P) =
                  (cs, ?P @ [residuals ! n + ?P ! (n - 1)])"
      using s n(1) by (intro decode_subframe_body_order_0) simp_all
    have "sum_list (take (Suc n) residuals) = residuals ! n + sum_list (take n residuals)"
      using n(3) by (simp add: take_Suc_conv_app_nth)
    then show ?thesis
      unfolding up fold_append comp_def IH fold_simps step last by simp
  qed
qed

text \<open>
  Claim C9 says that for every residual array and every subframe header with
  \<open>coeff_count = 0\<close>, \<open>decode_subframe\<close> produces the prefix sums of the residuals.
  \<open>shift_needed\<close> is a 4-bit field of the header. With no coefficients, a block that
  fits the residual array and a shift from 1 to 15, \<open>decode_subframe\<close> returns the
  prefix sums (in \<open>int\<close> arithmetic); with \<open>shift_needed = 0\<close> and a block of two
  samples or more the rounding term is \<open>1 << (0 - 1)\<close>, a shift by 4294967295, and
  the function has no defined result.
\<close>

theorem decode_subframe_order_0:
  assumes "coeff_count hdr = 0"
      and "shift_needed hdr < 16"
      and "0 < block_size"
      and "block_size \<le> length residuals"
  shows "decode_subframe block_size hdr residuals =
           (if shift_needed hdr = 0 \<and> 2 \<le> block_size then Inl UndefinedShift
            else Inr (map (\<lambda>i. sum_list (take (Suc i) residuals)) [0..<block_size]))"
proof (cases "shift_needed hdr = 0")
  case True
  have "unat (- 1 :: 32 word) = 2 ^ 32 - 1"
    by (simp add: unsigned_minus_1_eq_mask mask_eq_exp_minus_1)
  then have big: "32 \<le> unat (shift_needed hdr - 1)" using True by simp
  show ?thesis
  proof (cases "2 \<le> block_size")
    case True
    with big assms \<open>shift_needed hdr = 0\<close> show ?thesis
      by (simp add: decode_subframe_def)
  next
    case False
    with assms(3) have one: "block_size = 1" by simp
    with assms(4) have ne: "residuals \<noteq> []" by auto
    then have "take (Suc 0) residuals = [residuals ! 0]"
      by (cases residuals) simp_all
    with one ne assms show ?thesis by (simp add: decode_subframe_def)
  qed
next
  case False
  then have pos: "0 < unat (shift_needed hdr)" by (simp add: unat_gt_0)
  have "unat (shift_needed hdr) < 16" using assms(2) by (simp add: word_less_nat_alt)
  then have lt: "unat (shift_needed hdr) < 32" by simp
  have un1: "unat (shift_needed hdr - 1) = unat (shift_needed hdr) - 1"
    using False by (simp add: unat_minus_one)
  have small: "\<not> 32 \<le> unat (shift_needed hdr - 1)" using lt un1 by simp
  have "fold (decode_subframe_body (shift_needed hdr) 0 residuals) [1..<block_size]
          (coeff hdr, [residuals ! 0]) =
        (coeff hdr, map (\<lambda>i. sum_list (take (Suc i) residuals)) [0..<block_size])"
    using pos lt assms(3,4) by (rule decode_subframe_prefix_sums)
  with small False assms show ?thesis by (simp add: decode_subframe_def)
qed

theorem decode_subframe_order_0_witness:
  "coeff_count \<lparr>prediction_type = 0, shift_needed = 0, rice_modifier = 4, coeff_count = 0,
                 coeff = []\<rparr> = 0 \<and>
   shift_needed \<lparr>prediction_type = 0, shift_needed = 0, rice_modifier = 4, coeff_count = 0,
                  coeff = []\<rparr> < 16 \<and>
   0 < (2 :: nat) \<and> 2 \<le> length [1, 2 :: 32 word] \<and>
   decode_subframe 2
     \<lparr>prediction_type = 0, shift_needed = 0, rice_modifier = 4, coeff_count = 0, coeff = []\<rparr>
     [1, 2] = Inl UndefinedShift \<and>
   decode_subframe 2
     \<lparr>prediction_type = 0, shift_needed = 9, rice_modifier = 4, coeff_count = 0, coeff = []\<rparr>
     [1, 2] = Inr [1, 3]"
proof -
  let ?h0 = "\<lparr>prediction_type = 0, shift_needed = 0, rice_modifier = 4, coeff_count = 0,
              coeff = []\<rparr>"
  let ?h9 = "\<lparr>prediction_type = 0, shift_needed = 9, rice_modifier = 4, coeff_count = 0,
              coeff = []\<rparr>"
  have c0: "coeff_count ?h0 = 0" and s0: "shift_needed ?h0 < 16"
    and c9: "coeff_count ?h9 = 0" and s9: "shift_needed ?h9 < 16"
    by simp_all
  have b: "0 < (2 :: nat)" and l: "2 \<le> length [1, 2 :: 32 word]"
    by simp_all
  have sums: "map (\<lambda>i. sum_list (take (Suc i) [1, 2 :: 32 word])) [0..<2] = [1, 3]"
    by (simp add: upt_rec)
  from decode_subframe_order_0 [OF c0 s0 b l]
  have r0: "decode_subframe 2 ?h0 [1, 2] = Inl UndefinedShift" by simp
  from decode_subframe_order_0 [OF c9 s9 b l]
  have r9: "decode_subframe 2 ?h9 [1, 2] = Inr [1, 3]" unfolding sums by simp
  from c0 s0 b l r0 r9 show ?thesis by blast
qed

section \<open>The encoder against the decoder\<close>

subsection \<open>C2: the two residual coders\<close>

text \<open>
  Claim C2 says that \<open>encode_residuals\<close> and \<open>read_residual_block\<close> follow the same
  state machine. They do not. After a residual the encoder has already incremented
  \<open>i\<close> and enters the zero-run branch when \<open>history < 128\<close> and \<open>i < residual_count\<close>;
  the decoder has incremented \<open>i\<close> too (\<open>residual[i++]\<close>) but asks for
  \<open>(i + 1) < block_size\<close>. With one residual left the encoder writes a run length the
  decoder never reads.

  The block of the two residuals 0, 1 at 16 bits: the encoder writes 7 bits, the 4 in
  the middle being the run length 0, and leaves the first pass with the history reset
  and \<open>sign_modifier = 1\<close>; the decoder leaves its first pass with the history 10 and
  \<open>sign_modifier = 0\<close>, reads the first bit of the run length as the second residual,
  returns the residuals 0, 0 and leaves 5 bits unread.
\<close>

theorem residual_coders_diverge:
  "encode_residuals example_options 16 2 [0, 1]
     = Inr [False, False, False, False, False, True, False] \<and>
   read_residual_block [False, False, False, False, False, True, False]
       example_parameters 16 2 [0, 0]
     = Inr ([0, 0], [False, False, False, True, False]) \<and>
   encode_residuals_body example_options 16 2 [0, 1]
       \<lparr>e_history = 10, e_sign_modifier = 0, e_i = 0, e_out = []\<rparr>
     = Inr \<lparr>e_history = 0, e_sign_modifier = 1, e_i = 1,
            e_out = [False, False, False, False, False]\<rparr> \<and>
   read_residual_block_body example_parameters 16 2
       \<lparr>d_br = [False, False, False, False, False, True, False], d_history = 10,
        d_sign_modifier = 0, d_i = 0, d_residual = [0, 0]\<rparr>
     = Inr \<lparr>d_br = [False, False, False, False, True, False], d_history = 10,
            d_sign_modifier = 0, d_i = 1, d_residual = [0, 0]\<rparr>"
  by code_simp

subsection \<open>C1: decoding the encoder's output\<close>

text \<open>The encoder stores the channels of a frameset of 3 channels and more in the
  order of the ALAC frames (centre first); \<open>decode_frameset\<close> stores them in the
  order it reads them.\<close>

lemma decode_frameset_channel_order:
  "(case encode_alac (\<lambda>samples. None) 16 [[[1], [2], [3]]] 10 10 40 14 of
      Inl e \<Rightarrow> Inl e
    | Inr (output, frame_sizes) \<Rightarrow> decode_frameset (example_decoder 3) (drop 64 output))
   = Inr (1, [[3], [1], [2]], [])"
  by code_simp

text \<open>
  Claim C1 says that decoding the encoder's output reproduces every PCM block. It does
  not. The mono 16-bit block \<open>-32768, 0, 0, 0, 0, 0, 0, 0, 0, 0\<close>, encoded in blocks
  of 10 PCM frames: the Tukey window is 0 at the first sample, so the autocorrelation
  is 0 and \<open>compute_coefficients\<close> takes its branch with four zero coefficients. The
  second residual is \<open>0 - (-32768) = 32768\<close>, which \<open>TRUNCATE_BITS\<close> wraps to \<open>-32768\<close>
  at 16 bits. \<open>decode_subframe\<close> adds it to the first sample and never truncates:
  the decoder returns \<open>-65536\<close> for every sample after the first. The frameset
  starts after the 64 bits of the header of the \<open>mdat\<close> atom.
\<close>

theorem encode_decode_diverges:
  "(case encode_alac (\<lambda>samples. None) 16 [[[- 32768, 0, 0, 0, 0, 0, 0, 0, 0, 0]]]
           10 10 40 14 of
      Inl e \<Rightarrow> Inl e
    | Inr (output, frame_sizes) \<Rightarrow> decode_frameset (example_decoder 1) (drop 64 output))
   = Inr (10, [[- 32768, - 65536, - 65536, - 65536, - 65536, - 65536, - 65536, - 65536,
                - 65536, - 65536]], [])"
  by code_simp

end
